theory Spec2Isabelle
  imports Main "HOL-Library.AList" "HOL-Library.Sublist"
begin

section \<open>Python values\<close>

text \<open>
  The decoded body of a response (\<open>response.json()\<close>) is any JSON value. Objects are
  association lists read with \<open>map_of\<close> (a decoded dictionary has each key once);
  \<open>JNull\<close> is Python's \<open>None\<close>. A JSON number
  is kept as an integer: the code only tests numbers for truth, which for every Python
  number is "not zero".
\<close>

datatype json =
    JNull
  | JBool bool
  | JNum int
  | JStr string
  | JArr "json list"
  | JObj "(string \<times> json) list"

text \<open>The exceptions that the modelled statements can raise.\<close>

datatype exn =
    TypeError | AttributeError | KeyError | IndexError | JSONDecodeError
  | ValueError | RecursionError | UnicodeEncodeError
  | OpenAIError | McpError

text \<open>\<open>str(n)\<close> for a Python integer, as the f-strings of the source print it.\<close>

definition digit_char :: "nat \<Rightarrow> char" where
  "digit_char d = char_of (48 + d)"

fun str_nat_fuel :: "nat \<Rightarrow> nat \<Rightarrow> string" where
  "str_nat_fuel 0 n = [digit_char (n mod 10)]"
| "str_nat_fuel (Suc k) n =
     (if n < 10 then [digit_char n] else str_nat_fuel k (n div 10) @ [digit_char (n mod 10)])"

definition str_nat :: "nat \<Rightarrow> string" where
  "str_nat n = str_nat_fuel n n"

definition str_int :: "int \<Rightarrow> string" where
  "str_int i = (if i < 0 then CHR ''-'' # str_nat (nat (- i)) else str_nat (nat i))"

section \<open>server.py: make_api_request\<close>

text \<open>
  The HTTP transport (\<open>requests.get\<close>) is outside the repository. One call of it raises
  \<open>requests.Timeout\<close>, raises another \<open>requests.RequestException\<close> (carrying the text that
  \<open>str(e)\<close> gives), raises an exception that is no \<open>RequestException\<close> (for one,
  \<open>UnicodeEncodeError\<close> on a parameter that cannot be encoded), or returns a response. Of
  a response the code reads the status code, what \<open>raise_for_status()\<close> does (it raises
  \<open>HTTPError\<close>, a \<open>RequestException\<close>, exactly for the statuses 400 to 599; \<open>http_error\<close>
  is that exception's text) and what \<open>json()\<close> does: it returns the decoded body, raises
  \<open>requests.exceptions.JSONDecodeError\<close> (again a \<open>RequestException\<close>, with its text) on a
  body that is not JSON, or raises an exception that is no \<open>RequestException\<close>
  (\<open>ValueError\<close> on an integer of more digits than Python converts, \<open>RecursionError\<close> on a
  body nested too deep).
\<close>

datatype json_outcome =
    Decoded json
  | JSONDecodeFailure string
  | JsonRaises exn

record response =
  status_code :: int
  http_error :: string
  body :: json_outcome

datatype attempt_outcome =
    RaiseTimeout
  | RaiseRequestException string
  | RaiseOther exn
  | Respond response

type_synonym query = "(string \<times> string) list"

record request =
  url :: string
  headers :: "(string \<times> string) list"
  params :: "query option"

text \<open>
  What can be observed of a run: every entry into \<open>make_api_request\<close> (endpoint,
  parameters, retry budget), every HTTP GET and every \<open>time.sleep\<close>, in the order in which
  they happen. The transport has a state of its own, \<open>'w\<close>, so that its answers may depend
  on the request and on everything that was asked before.
\<close>

datatype event =
    ApiCall string "query option" int
  | Get request
  | Sleep int

type_synonym 'w io = "'w \<times> event list"

record 'w env =
  http_get :: "'w \<Rightarrow> request \<Rightarrow> attempt_outcome \<times> 'w"
  api_token :: "string option"
  py_int :: "string \<Rightarrow> int option"
  py_repr :: "json \<Rightarrow> string"

text \<open>
  Two built-ins of Python are taken from the environment as well: \<open>py_int\<close> is
  \<open>int(s)\<close> on a string (\<open>None\<close> where Python raises \<open>ValueError\<close>), and \<open>py_repr\<close> is
  the text Python prints for a list or a dictionary inside an f-string.
\<close>

definition emit :: "event \<Rightarrow> 'w io \<Rightarrow> 'w io" where
  "emit e io = (fst io, snd io @ [e])"

definition requests_get :: "('w, 'x) env_scheme \<Rightarrow> request \<Rightarrow> 'w io \<Rightarrow> attempt_outcome \<times> 'w io" where
  "requests_get env rq io =
     (let r = http_get env (fst io) rq in (fst r, (snd r, snd io @ [Get rq])))"

definition COURTLISTENER_BASE_URL :: string where
  "COURTLISTENER_BASE_URL = ''https://www.courtlistener.com/api/rest/v4''"

definition get_api_token :: "('w, 'x) env_scheme \<Rightarrow> string option" where
  "get_api_token env =
     (case api_token env of None \<Rightarrow> None | Some t \<Rightarrow> if t = [] then None else Some t)"

definition error_dict :: "string \<Rightarrow> json" where
  "error_dict m = JObj [(''error'', JStr m)]"

definition rate_limit_message :: string where
  "rate_limit_message =
     ''Rate limit exceeded. Free accounts have 5,000 queries/hour. Please wait before making more requests.''"

definition auth_failed_message :: string where
  "auth_failed_message =
     ''Authentication failed. Check your COURTLISTENER_API_TOKEN environment variable.''"

definition not_found_message :: string where
  "not_found_message = ''Not found or invalid cursor. Try removing pagination parameters.''"

definition timed_out_message :: "int \<Rightarrow> string" where
  "timed_out_message retries =
     ''Request timed out after '' @ str_int retries
       @ '' attempts. CourtListener API may be slow or unavailable.''"

definition request_failed_message :: "int \<Rightarrow> string \<Rightarrow> string" where
  "request_failed_message retries e =
     ''API request failed after '' @ str_int retries @ '' attempts: '' @ e"

text \<open>The body of the \<open>try\<close>: what one attempt returns or raises. An exception that
  neither \<open>except\<close> clause names leaves the function.\<close>

datatype try_result =
    Return json
  | Raised_Timeout
  | Raised_RequestException string
  | Raised_Other exn

definition raise_for_status :: "response \<Rightarrow> string option" where
  "raise_for_status r =
     (if 400 \<le> status_code r \<and> status_code r < 600 then Some (http_error r) else None)"

definition try_body :: "attempt_outcome \<Rightarrow> try_result" where
  "try_body out =
     (case out of
        RaiseTimeout \<Rightarrow> Raised_Timeout
      | RaiseRequestException e \<Rightarrow> Raised_RequestException e
      | RaiseOther e \<Rightarrow> Raised_Other e
      | Respond r \<Rightarrow>
          if status_code r = 429 then Return (error_dict rate_limit_message)
          else if status_code r = 401 then Return (error_dict auth_failed_message)
          else if status_code r = 404 then Return (error_dict not_found_message)
          else (case raise_for_status r of
                  Some e \<Rightarrow> Raised_RequestException e
                | None \<Rightarrow>
                    (case body r of
                       Decoded v \<Rightarrow> Return v
                     | JSONDecodeFailure e \<Rightarrow> Raised_RequestException e
                     | JsonRaises e \<Rightarrow> Raised_Other e)))"

text \<open>The loop \<open>for attempt in range(retries)\<close>, entered at \<open>attempt\<close>: \<open>Inr v\<close> is the
  value returned, \<open>Inl e\<close> an exception that leaves \<open>make_api_request\<close>.\<close>

function attempts ::
  "('w, 'x) env_scheme \<Rightarrow> request \<Rightarrow> int \<Rightarrow> int \<Rightarrow> 'w io \<Rightarrow> (exn + json) \<times> 'w io" where
  "attempts env rq retries attempt io =
     (if attempt < retries then
        (let got = requests_get env rq io; io1 = snd got in
         case try_body (fst got) of
           Return v \<Rightarrow> (Inr v, io1)
         | Raised_Other e \<Rightarrow> (Inl e, io1)
         | Raised_Timeout \<Rightarrow>
             if attempt < retries - 1
             then attempts env rq retries (attempt + 1) (emit (Sleep (2 ^ nat attempt)) io1)
             else (Inr (error_dict (timed_out_message retries)), io1)
         | Raised_RequestException e \<Rightarrow>
             if attempt < retries - 1
             then attempts env rq retries (attempt + 1) (emit (Sleep (2 ^ nat attempt)) io1)
             else (Inr (error_dict (request_failed_message retries e)), io1))
      else (Inr (error_dict ''Maximum retries exceeded''), io))"
  by pat_completeness auto
termination
  by (relation "measure (\<lambda>(env, rq, retries, attempt, io). nat (retries - attempt))") auto

declare attempts.simps [simp del]

definition build_request :: "('w, 'x) env_scheme \<Rightarrow> string \<Rightarrow> query option \<Rightarrow> request" where
  "build_request env endpoint ps =
     \<lparr> url = COURTLISTENER_BASE_URL @ ''/'' @ endpoint @ ''/'',
       headers =
         [(''Accept'', ''application/json''), (''Content-Type'', ''application/json'')]
         @ (case get_api_token env of
              None \<Rightarrow> []
            | Some t \<Rightarrow> [(''Authorization'', ''Token '' @ t)]),
       params = ps \<rparr>"

definition make_api_request ::
  "('w, 'x) env_scheme \<Rightarrow> string \<Rightarrow> query option \<Rightarrow> int \<Rightarrow> 'w io \<Rightarrow> (exn + json) \<times> 'w io" where
  "make_api_request env endpoint ps retries io =
     attempts env (build_request env endpoint ps) retries 0
       (emit (ApiCall endpoint ps retries) io)"

text \<open>Projections of a trace.\<close>

fun sleeps :: "event list \<Rightarrow> int list" where
  "sleeps [] = []"
| "sleeps (Sleep d # es) = d # sleeps es"
| "sleeps (e # es) = sleeps es"

fun gets :: "event list \<Rightarrow> request list" where
  "gets [] = []"
| "gets (Get rq # es) = rq # gets es"
| "gets (e # es) = gets es"

fun api_calls :: "event list \<Rightarrow> (string \<times> query option) list" where
  "api_calls [] = []"
| "api_calls (ApiCall ep ps n # es) = (ep, ps) # api_calls es"
| "api_calls (e # es) = api_calls es"

text \<open>An attempt is retryable when its \<open>try\<close> body raises \<open>Timeout\<close> or another
  \<open>RequestException\<close>.\<close>

definition retryable :: "attempt_outcome \<Rightarrow> bool" where
  "retryable out =
     (case try_body out of
        Raised_Timeout \<Rightarrow> True
      | Raised_RequestException e \<Rightarrow> True
      | _ \<Rightarrow> False)"

definition exhausted :: "int \<Rightarrow> json \<Rightarrow> bool" where
  "exhausted n v \<longleftrightarrow>
     (case v of
        JObj [(k, JStr m)] \<Rightarrow>
          k = ''error'' \<and>
          (m = timed_out_message n \<or>
           prefix (''API request failed after '' @ str_int n @ '' attempts: '') m)
      | _ \<Rightarrow> False)"

section \<open>Python operations on decoded values\<close>

fun truthy :: "json \<Rightarrow> bool" where
  "truthy JNull = False"
| "truthy (JBool b) = b"
| "truthy (JNum n) = (n \<noteq> 0)"
| "truthy (JStr s) = (s \<noteq> [])"
| "truthy (JArr xs) = (xs \<noteq> [])"
| "truthy (JObj kvs) = (kvs \<noteq> [])"

text \<open>\<open>sub in s\<close> on two strings.\<close>

fun is_substring :: "string \<Rightarrow> string \<Rightarrow> bool" where
  "is_substring sub [] = (sub = [])"
| "is_substring sub (c # cs) = (prefix sub (c # cs) \<or> is_substring sub cs)"

text \<open>\<open>k in v\<close> for a string \<open>k\<close>: a key of a dictionary, an element of a list, a substring
  of a string; any other value is not iterable.\<close>

fun py_in :: "string \<Rightarrow> json \<Rightarrow> exn + bool" where
  "py_in k (JObj kvs) = Inr (map_of kvs k \<noteq> None)"
| "py_in k (JArr xs) = Inr (JStr k \<in> set xs)"
| "py_in k (JStr s) = Inr (is_substring k s)"
| "py_in k v = Inl TypeError"

text \<open>\<open>v[k]\<close> for a string \<open>k\<close>.\<close>

fun py_getitem :: "json \<Rightarrow> string \<Rightarrow> exn + json" where
  "py_getitem (JObj kvs) k = (case map_of kvs k of None \<Rightarrow> Inl KeyError | Some x \<Rightarrow> Inr x)"
| "py_getitem v k = Inl TypeError"

text \<open>\<open>v.get(k, d)\<close>: only a dictionary has the method.\<close>

fun py_get :: "json \<Rightarrow> string \<Rightarrow> json \<Rightarrow> exn + json" where
  "py_get (JObj kvs) k d = Inr (case map_of kvs k of None \<Rightarrow> d | Some x \<Rightarrow> x)"
| "py_get v k d = Inl AttributeError"

text \<open>What \<open>list.extend(v)\<close> appends: the elements of a list, the characters of a string,
  the keys of a dictionary.\<close>

fun py_iter :: "json \<Rightarrow> exn + json list" where
  "py_iter (JArr xs) = Inr xs"
| "py_iter (JStr s) = Inr (map (\<lambda>c. JStr [c]) s)"
| "py_iter (JObj kvs) = Inr (map (\<lambda>kv. JStr (fst kv)) kvs)"
| "py_iter v = Inl TypeError"

text \<open>\<open>str(v)\<close>, as an f-string prints a value.\<close>

definition py_str :: "('w, 'x) env_scheme \<Rightarrow> json \<Rightarrow> string" where
  "py_str env v =
     (case v of
        JStr s \<Rightarrow> s
      | JNull \<Rightarrow> ''None''
      | JBool b \<Rightarrow> (if b then ''True'' else ''False'')
      | JNum n \<Rightarrow> str_int n
      | _ \<Rightarrow> py_repr env v)"

text \<open>
  \<open>s.split(sep)\<close> for a separator that is not empty (both separators of the source are
  literals; Python raises \<open>ValueError\<close> for an empty one, and the model gives no piece).
  \<open>find_sep\<close> cuts a string at the first occurrence of the separator.
\<close>

fun find_sep :: "string \<Rightarrow> string \<Rightarrow> (string \<times> string) option" where
  "find_sep sep [] = (if sep = [] then Some ([], []) else None)"
| "find_sep sep (c # cs) =
     (if prefix sep (c # cs) then Some ([], drop (length sep) (c # cs))
      else map_option (\<lambda>ab. (c # fst ab, snd ab)) (find_sep sep cs))"

lemma find_sep_length:
  "find_sep sep s = Some (a, b) \<Longrightarrow> length a + length sep + length b = length s"
proof (induction s arbitrary: a b)
  case Nil
  then show ?case by (simp split: if_splits)
next
  case (Cons c cs)
  show ?case
  proof (cases "prefix sep (c # cs)")
    case True
    then have "length sep \<le> length (c # cs)" by (rule prefix_length_le)
    with True Cons.prems show ?thesis by auto
  next
    case False
    with Cons.prems obtain a' where "find_sep sep cs = Some (a', b)" "a = c # a'"
      by auto
    with Cons.IH show ?thesis by auto
  qed
qed

function py_split :: "string \<Rightarrow> string \<Rightarrow> string list" where
  "py_split sep s =
     (if sep = [] then []
      else (case find_sep sep s of
              None \<Rightarrow> [s]
            | Some ab \<Rightarrow> fst ab # py_split sep (snd ab)))"
  by pat_completeness auto
termination
proof (relation "measure (\<lambda>(sep, s). length s)")
  show "wf (measure (\<lambda>(sep, s). length s))" by simp
next
  fix sep s :: string and ab
  assume "sep \<noteq> []" "find_sep sep s = Some ab"
  then have "length (fst ab) + length sep + length (snd ab) = length s"
    by (cases ab) (simp add: find_sep_length)
  with \<open>sep \<noteq> []\<close> show "((sep, snd ab), (sep, s)) \<in> measure (\<lambda>(sep, s). length s)"
    by (cases sep) auto
qed

declare py_split.simps [simp del]

text \<open>\<open>xs[i]\<close> for an index that is not negative.\<close>

definition py_index :: "'a list \<Rightarrow> nat \<Rightarrow> exn + 'a" where
  "py_index xs i = (if i < length xs then Inr (xs ! i) else Inl IndexError)"

section \<open>server.py: search_with_pagination\<close>

definition newline :: string where
  "newline = [CHR 0x0A]"

definition valid_search_types :: "string list" where
  "valid_search_types = [''opinions'', ''dockets'', ''courts'', ''people'']"

text \<open>\<open>min(int(max_pages), 10)\<close>, and 3 when \<open>int\<close> raises \<open>ValueError\<close>.\<close>

definition max_pages_int :: "('w, 'x) env_scheme \<Rightarrow> string \<Rightarrow> int" where
  "max_pages_int env max_pages =
     (case py_int env max_pages of Some n \<Rightarrow> min n 10 | None \<Rightarrow> 3)"

text \<open>The dictionary \<open>params\<close> as it stands when the loop is entered.\<close>

definition initial_params :: "string \<Rightarrow> string \<Rightarrow> string \<Rightarrow> query" where
  "initial_params search_type query cursor =
     (let p0 = [];
          p1 = (if query \<noteq> [] then
                  (if search_type = ''opinions'' then AList.update ''q'' query p0
                   else if search_type = ''dockets'' then AList.update ''case_name__icontains'' query p0
                   else if search_type = ''courts'' then AList.update ''full_name__icontains'' query p0
                   else if search_type = ''people'' then AList.update ''name_full__icontains'' query p0
                   else p0)
                else p0)
      in if cursor \<noteq> [] then AList.update ''cursor'' cursor p1 else p1)"

text \<open>The cursor assignment at the head of the loop body.\<close>

definition set_cursor :: "string \<Rightarrow> query \<Rightarrow> query" where
  "set_cursor current_cursor ps =
     (if current_cursor \<noteq> [] then AList.update ''cursor'' current_cursor ps
      else if map_of ps ''cursor'' \<noteq> None then AList.delete ''cursor'' ps
      else ps)"

text \<open>
  \<open>next_url.split('cursor=')[1].split('&')[0]\<close>, reached only when \<open>'cursor=' in next_url\<close>
  holds; \<open>None\<close> is the \<open>else: break\<close>. A value that is not a string has no \<open>split\<close>.
\<close>

definition extract_cursor :: "json \<Rightarrow> exn + string option" where
  "extract_cursor next_url =
     (case py_in ''cursor='' next_url of
        Inl e \<Rightarrow> Inl e
      | Inr False \<Rightarrow> Inr None
      | Inr True \<Rightarrow>
          (case next_url of
             JStr s \<Rightarrow>
               (case py_index (py_split ''cursor='' s) 1 of
                  Inl e \<Rightarrow> Inl e
                | Inr part \<Rightarrow>
                    (case py_index (py_split ''&'' part) 0 of
                       Inl e \<Rightarrow> Inl e
                     | Inr c \<Rightarrow> Inr (Some c)))
           | _ \<Rightarrow> Inl AttributeError))"

text \<open>
  One pass of the loop body after the request: the function returns, the loop is left
  (with the list and the page count as they are then), the loop goes on with a new
  cursor, or an exception leaves the function.
\<close>

datatype step =
    StepReturn json
  | StepBreak "json list" int
  | StepContinue "json list" string
  | StepRaise exn

definition after_results :: "json \<Rightarrow> json list \<Rightarrow> int \<Rightarrow> step" where
  "after_results result all_results pages_fetched =
     (case py_get result ''next'' JNull of
        Inl e \<Rightarrow> StepRaise e
      | Inr next_url \<Rightarrow>
          if \<not> truthy next_url then StepBreak all_results pages_fetched
          else (case extract_cursor next_url of
                  Inl e \<Rightarrow> StepRaise e
                | Inr None \<Rightarrow> StepBreak all_results pages_fetched
                | Inr (Some c) \<Rightarrow> StepContinue all_results c))"

definition page_step :: "json \<Rightarrow> json list \<Rightarrow> int \<Rightarrow> step" where
  "page_step result all_results pages_fetched =
     (case py_in ''error'' result of
        Inl e \<Rightarrow> StepRaise e
      | Inr True \<Rightarrow>
          (case py_getitem result ''error'' of Inl e \<Rightarrow> StepRaise e | Inr v \<Rightarrow> StepReturn v)
      | Inr False \<Rightarrow>
          (case py_in ''results'' result of
             Inl e \<Rightarrow> StepRaise e
           | Inr False \<Rightarrow> StepBreak all_results pages_fetched
           | Inr True \<Rightarrow>
               (case py_getitem result ''results'' of
                  Inl e \<Rightarrow> StepRaise e
                | Inr rs \<Rightarrow>
                    if \<not> truthy rs then StepBreak all_results pages_fetched
                    else (case py_iter rs of
                            Inl e \<Rightarrow> StepRaise e
                          | Inr items \<Rightarrow>
                              after_results result (all_results @ items) (pages_fetched + 1)))))"

datatype loop_exit =
    LoopReturn json
  | LoopDone "json list" int
  | LoopRaise exn

function pagination_loop ::
  "('w, 'x) env_scheme \<Rightarrow> string \<Rightarrow> int \<Rightarrow> query \<Rightarrow> json list \<Rightarrow> string \<Rightarrow> int \<Rightarrow> 'w io
     \<Rightarrow> loop_exit \<times> 'w io" where
  "pagination_loop env search_type max_pages ps all_results current_cursor pages_fetched io =
     (if pages_fetched < max_pages then
        (let ps1 = set_cursor current_cursor ps;
             got = make_api_request env search_type (Some ps1) 3 io
         in case fst got of
              Inl e \<Rightarrow> (LoopRaise e, snd got)
            | Inr result \<Rightarrow>
                (case page_step result all_results pages_fetched of
                   StepReturn v \<Rightarrow> (LoopReturn v, snd got)
                 | StepRaise e \<Rightarrow> (LoopRaise e, snd got)
                 | StepBreak rs n \<Rightarrow> (LoopDone rs n, snd got)
                 | StepContinue rs c \<Rightarrow>
                     pagination_loop env search_type max_pages ps1 rs c (pages_fetched + 1)
                       (snd got)))
      else (LoopDone all_results pages_fetched, io))"
  by pat_completeness auto
termination
  by (relation "measure (\<lambda>(env, st, max_pages, ps, rs, c, pages_fetched, io).
        nat (max_pages - pages_fetched))") auto

declare pagination_loop.simps [simp del]

text \<open>The text written for one item, numbered \<open>i\<close>.\<close>

definition title_of :: "('w, 'x) env_scheme \<Rightarrow> string \<Rightarrow> json \<Rightarrow> exn + string option" where
  "title_of env search_type item =
     (if search_type = ''opinions'' then
        (case py_get item ''cluster'' (JObj []) of
           Inl e \<Rightarrow> Inl e
         | Inr cluster \<Rightarrow>
             (case py_get cluster ''case_name'' (JStr ''Unknown Case'') of
                Inl e \<Rightarrow> Inl e
              | Inr v \<Rightarrow> Inr (Some (py_str env v))))
      else if search_type = ''dockets'' then
        (case py_get item ''case_name'' (JStr ''Unknown Case'') of
           Inl e \<Rightarrow> Inl e | Inr v \<Rightarrow> Inr (Some (py_str env v)))
      else if search_type = ''courts'' then
        (case py_get item ''full_name'' (JStr ''Unknown Court'') of
           Inl e \<Rightarrow> Inl e | Inr v \<Rightarrow> Inr (Some (py_str env v)))
      else if search_type = ''people'' then
        (case py_get item ''name_full'' (JStr ''Unknown Person'') of
           Inl e \<Rightarrow> Inl e | Inr v \<Rightarrow> Inr (Some (py_str env v)))
      else Inr None)"

definition format_item :: "('w, 'x) env_scheme \<Rightarrow> string \<Rightarrow> nat \<Rightarrow> json \<Rightarrow> exn + string" where
  "format_item env search_type i item =
     (case title_of env search_type item of
        Inl e \<Rightarrow> Inl e
      | Inr title \<Rightarrow>
          (let line1 = (case title of
                          None \<Rightarrow> []
                        | Some t \<Rightarrow> str_nat i @ ''. '' @ t @ newline)
           in case py_get item ''absolute_url'' JNull of
                Inl e \<Rightarrow> Inl e
              | Inr u \<Rightarrow>
                  if truthy u then
                    (case py_getitem item ''absolute_url'' of
                       Inl e \<Rightarrow> Inl e
                     | Inr u' \<Rightarrow>
                         Inr (line1 @ ''   URL: https://www.courtlistener.com'' @ py_str env u'
                                @ newline @ newline))
                  else Inr (line1 @ newline)))"

fun format_items :: "('w, 'x) env_scheme \<Rightarrow> string \<Rightarrow> nat \<Rightarrow> json list \<Rightarrow> exn + string" where
  "format_items env search_type i [] = Inr []"
| "format_items env search_type i (item # items) =
     (case format_item env search_type i item of
        Inl e \<Rightarrow> Inl e
      | Inr t \<Rightarrow>
          (case format_items env search_type (Suc i) items of
             Inl e \<Rightarrow> Inl e
           | Inr ts \<Rightarrow> Inr (t @ ts)))"

definition found_header :: "string \<Rightarrow> nat \<Rightarrow> int \<Rightarrow> string" where
  "found_header search_type n pages =
     ''Found '' @ str_nat n @ '' '' @ search_type @ '' across '' @ str_int pages
       @ '' pages:'' @ newline @ newline"

definition format_results :: "('w, 'x) env_scheme \<Rightarrow> string \<Rightarrow> json list \<Rightarrow> int \<Rightarrow> exn + json" where
  "format_results env search_type all_results pages_fetched =
     (if all_results = [] then Inr (JStr (''No '' @ search_type @ '' found''))
      else (case format_items env search_type 1 all_results of
              Inl e \<Rightarrow> Inl e
            | Inr t \<Rightarrow>
                Inr (JStr (found_header search_type (length all_results) pages_fetched @ t))))"

text \<open>The tool: \<open>Inr v\<close> is the value it returns, \<open>Inl e\<close> an exception that leaves it.\<close>

definition search_with_pagination ::
  "('w, 'x) env_scheme \<Rightarrow> string \<Rightarrow> string \<Rightarrow> string \<Rightarrow> string \<Rightarrow> 'w io \<Rightarrow> (exn + json) \<times> 'w io" where
  "search_with_pagination env search_type query cursor max_pages io =
     (if search_type \<notin> set valid_search_types then
        (Inr (JStr ''Error: search_type must be one of: opinions, dockets, courts, people''), io)
      else
        (let run = pagination_loop env search_type (max_pages_int env max_pages)
                     (initial_params search_type query cursor) [] cursor 0 io
         in case fst run of
              LoopReturn v \<Rightarrow> (Inr v, snd run)
            | LoopRaise e \<Rightarrow> (Inl e, snd run)
            | LoopDone rs n \<Rightarrow> (format_results env search_type rs n, snd run)))"

section \<open>client.py: the tool-schema bridge and the dispatch cycle\<close>

text \<open>
  A tool descriptor is a Python object. The code asks whether it is truthy (\<open>not tool\<close>)
  and, of each of its three attributes, whether the object has it (\<open>hasattr\<close>): \<open>truth\<close>
  is what \<open>bool(tool)\<close> gives, and a field is \<open>None\<close> when the attribute is missing and
  \<open>Some v\<close> when it is there with the value \<open>v\<close> (\<open>JNull\<close> for Python's \<open>None\<close>). An
  entry of the tool list that is Python's \<open>None\<close>, which is falsy and has no attribute, is
  \<open>None\<close>.
\<close>

record tool =
  truth :: bool
  name :: "json option"
  description :: "json option"
  inputSchema :: "json option"

definition tool_schema :: "json \<Rightarrow> json \<Rightarrow> json \<Rightarrow> json" where
  "tool_schema nm ds properties =
     JObj [(''type'', JStr ''function''),
           (''function'',
            JObj [(''name'', nm),
                  (''description'', ds),
                  (''parameters'',
                   JObj [(''type'', JStr ''object''), (''properties'', properties)])])]"

text \<open>The \<open>properties\<close> that the schema gets: \<open>{}\<close> unless the descriptor has an
  \<open>inputSchema\<close> that is truthy and holds the key.\<close>

definition schema_properties :: "tool \<Rightarrow> exn + json" where
  "schema_properties t =
     (case inputSchema t of
        None \<Rightarrow> Inr (JObj [])
      | Some sch \<Rightarrow>
          if \<not> truthy sch then Inr (JObj [])
          else (case py_in ''properties'' sch of
                  Inl e \<Rightarrow> Inl e
                | Inr False \<Rightarrow> Inr (JObj [])
                | Inr True \<Rightarrow> py_getitem sch ''properties''))"

definition convert_to_llm_tool :: "tool option \<Rightarrow> exn + json option" where
  "convert_to_llm_tool entry =
     (case entry of
        None \<Rightarrow> Inr None
      | Some t \<Rightarrow>
          if \<not> truth t then Inr None
          else
            (case name t of
               None \<Rightarrow> Inr None
             | Some nm \<Rightarrow>
                 (case description t of
                    None \<Rightarrow> Inr None
                  | Some ds \<Rightarrow>
                      (case schema_properties t of
                         Inl e \<Rightarrow> Inl e
                       | Inr properties \<Rightarrow> Inr (Some (tool_schema nm ds properties))))))"

text \<open>
  The model, the JSON parser and the tool session are outside the repository:
  \<open>chat_completions\<close> answers a prompt and a schema list with the tool calls of the
  response message (\<open>None\<close> when the message has none) or raises; \<open>json_loads\<close> is
  \<open>json.loads\<close>, \<open>None\<close> where it raises \<open>JSONDecodeError\<close>; \<open>call_tool\<close> is the
  session's call, which returns a content or raises.
\<close>

record tool_call =
  function_name :: string
  function_arguments :: string

record client_env =
  list_tools :: "tool option list"
  chat_completions :: "string \<Rightarrow> json list \<Rightarrow> exn + tool_call list option"
  json_loads :: "string \<Rightarrow> json option"
  call_tool :: "string \<Rightarrow> json \<Rightarrow> exn + json"

text \<open>What a cycle does to the outside: the request to the model, each tool invocation,
  and the report that no valid tool was found.\<close>

datatype client_event =
    LLMRequest string "json list"
  | ToolInvoked string json
  | NoValidTools

text \<open>The loop over \<open>response_message.tool_calls\<close>; \<open>acc\<close> is \<open>functions_to_call\<close>.\<close>

fun parse_tool_calls ::
  "(string \<Rightarrow> json option) \<Rightarrow> tool_call list \<Rightarrow> (string \<times> json) list \<Rightarrow> exn + (string \<times> json) list" where
  "parse_tool_calls loads [] acc = Inr acc"
| "parse_tool_calls loads (c # cs) acc =
     (case loads (function_arguments c) of
        None \<Rightarrow> Inl JSONDecodeError
      | Some args \<Rightarrow> parse_tool_calls loads cs (acc @ [(function_name c, args)]))"

definition call_llm ::
  "('x) client_env_scheme \<Rightarrow> string \<Rightarrow> json list \<Rightarrow> client_event list
     \<Rightarrow> (exn + (string \<times> json) list) \<times> client_event list" where
  "call_llm env prompt functions tr =
     (let tr1 = tr @ [LLMRequest prompt functions] in
      case chat_completions env prompt functions of
        Inl e \<Rightarrow> (Inl e, tr1)
      | Inr tool_calls \<Rightarrow>
          (case tool_calls of
             None \<Rightarrow> (Inr [], tr1)
           | Some cs \<Rightarrow>
               if cs = [] then (Inr [], tr1)
               else (parse_tool_calls (json_loads env) cs [], tr1)))"

text \<open>The two \<open>print\<close> lines at the head of the loop over the tools: \<open>tool.name\<close> needs the
  attribute, and \<open>getattr(tool, 'inputSchema', {}).get('properties', {})\<close> needs a
  dictionary where the attribute is there.\<close>

definition print_tool :: "tool option \<Rightarrow> exn + unit" where
  "print_tool entry =
     (case entry of
        None \<Rightarrow> Inl AttributeError
      | Some t \<Rightarrow>
          (case name t of
             None \<Rightarrow> Inl AttributeError
           | Some nm \<Rightarrow>
               (case py_get (case inputSchema t of None \<Rightarrow> JObj [] | Some sch \<Rightarrow> sch)
                       ''properties'' (JObj []) of
                  Inl e \<Rightarrow> Inl e
                | Inr v \<Rightarrow> Inr ())))"

fun collect_functions :: "tool option list \<Rightarrow> json list \<Rightarrow> exn + json list" where
  "collect_functions [] functions = Inr functions"
| "collect_functions (entry # entries) functions =
     (case print_tool entry of
        Inl e \<Rightarrow> Inl e
      | Inr u \<Rightarrow>
          (case convert_to_llm_tool entry of
             Inl e \<Rightarrow> Inl e
           | Inr converted_tool \<Rightarrow>
               (case converted_tool of
                  None \<Rightarrow> collect_functions entries functions
                | Some sch \<Rightarrow>
                    if truthy sch then collect_functions entries (functions @ [sch])
                    else collect_functions entries functions)))"

text \<open>The loop over \<open>functions_to_call\<close>.\<close>

fun call_tools ::
  "('x) client_env_scheme \<Rightarrow> (string \<times> json) list \<Rightarrow> client_event list \<Rightarrow> exn option \<times> client_event list" where
  "call_tools env [] tr = (None, tr)"
| "call_tools env (f # fs) tr =
     (case call_tool env (fst f) (snd f) of
        Inl e \<Rightarrow> (Some e, tr @ [ToolInvoked (fst f) (snd f)])
      | Inr result \<Rightarrow> call_tools env fs (tr @ [ToolInvoked (fst f) (snd f)]))"

definition the_prompt :: string where
  "the_prompt =
     ''I want to get some real cases of starting businesses with F-1 visa in the US. Can you help me with that? Please also give me the summary based on the opnion ID''"

text \<open>One dispatch cycle: \<open>None\<close> when \<open>run\<close> returns, \<open>Some e\<close> when an exception leaves
  it, and the events in their order.\<close>

definition run :: "('x) client_env_scheme \<Rightarrow> exn option \<times> client_event list" where
  "run env =
     (case collect_functions (list_tools env) [] of
        Inl e \<Rightarrow> (Some e, [])
      | Inr functions \<Rightarrow>
          if functions = [] then (None, [NoValidTools])
          else (let r = call_llm env the_prompt functions [] in
                case fst r of
                  Inl e \<Rightarrow> (Some e, snd r)
                | Inr functions_to_call \<Rightarrow> call_tools env functions_to_call (snd r)))"

section \<open>Predicates of the statements\<close>

text \<open>A descriptor has no parameter properties when it has no \<open>inputSchema\<close>, a falsy
  one, or one without the key \<open>properties\<close>; the accepted schemas of a tool list are the
  schemas that \<open>convert_to_llm_tool\<close> returns for its entries, in their order.\<close>

definition no_parameter_properties :: "tool \<Rightarrow> bool" where
  "no_parameter_properties t =
     (case inputSchema t of
        None \<Rightarrow> True
      | Some sch \<Rightarrow> \<not> truthy sch \<or> py_in ''properties'' sch = Inr False)"

definition accepted_schemas :: "tool option list \<Rightarrow> json list" where
  "accepted_schemas entries =
     concat (map (\<lambda>entry. case convert_to_llm_tool entry of
                            Inr (Some sch) \<Rightarrow> [sch]
                          | _ \<Rightarrow> []) entries)"

text \<open>The text before the first occurrence of a separator, or the whole text when there
  is none: the first piece of a split.\<close>

definition before_sep :: "string \<Rightarrow> string \<Rightarrow> string" where
  "before_sep sep s = (case find_sep sep s of None \<Rightarrow> s | Some ab \<Rightarrow> fst ab)"

text \<open>
  The cursor in the words of the data model: the text of the \<open>next\<close> link between
  \<open>cursor=\<close> and the following \<open>&\<close>, or the end of the string; none without \<open>cursor=\<close>.
\<close>

definition cursor_as_worded :: "string \<Rightarrow> string option" where
  "cursor_as_worded s =
     (case find_sep ''cursor='' s of None \<Rightarrow> None | Some ab \<Rightarrow> Some (before_sep ''&'' (snd ab)))"

text \<open>An attempt is handled when what it raises, if it raises, is a \<open>requests\<close> exception:
  those are the exceptions that \<open>make_api_request\<close> catches.\<close>

definition handled :: "attempt_outcome \<Rightarrow> bool" where
  "handled out = (case try_body out of Raised_Other e \<Rightarrow> False | _ \<Rightarrow> True)"

text \<open>
  The shape of a decoded body that the code of \<open>search_with_pagination\<close> relies on: an
  object whose \<open>results\<close>, when truthy, is a list of objects (for \<open>opinions\<close>, each with
  a \<open>cluster\<close> that is an object when it is there) and whose \<open>next\<close>, when truthy, is a
  string.
\<close>

definition item_ok :: "string \<Rightarrow> json \<Rightarrow> bool" where
  "item_ok st item =
     (case item of
        JObj kvs \<Rightarrow>
          (if st = ''opinions'' then
             (case map_of kvs ''cluster'' of
                None \<Rightarrow> True
              | Some (JObj c) \<Rightarrow> True
              | Some v \<Rightarrow> False)
           else True)
      | _ \<Rightarrow> False)"

definition body_ok :: "string \<Rightarrow> json \<Rightarrow> bool" where
  "body_ok st v =
     (case v of
        JObj kvs \<Rightarrow>
          (case map_of kvs ''results'' of
             None \<Rightarrow> True
           | Some (JArr items) \<Rightarrow> list_all (item_ok st) items
           | Some r \<Rightarrow> \<not> truthy r) \<and>
          (case map_of kvs ''next'' of
             None \<Rightarrow> True
           | Some (JStr s) \<Rightarrow> True
           | Some n \<Rightarrow> \<not> truthy n)
      | _ \<Rightarrow> False)"

text \<open>
  A request is well answered when, whatever the state of the transport, an attempt on it
  raises nothing but a \<open>requests\<close> exception, and the value that the attempt returns, if it
  returns one, has that shape.
\<close>

definition well_answered :: "('w, 'x) env_scheme \<Rightarrow> string \<Rightarrow> request \<Rightarrow> bool" where
  "well_answered env st rq \<longleftrightarrow>
     (\<forall>w. case try_body (fst (http_get env w rq)) of
             Raised_Other e \<Rightarrow> False
           | Return v \<Rightarrow> body_ok st v
           | _ \<Rightarrow> True)"

section \<open>Concrete environments\<close>

text \<open>
  A reading of decimal literals that agrees with Python's \<open>int\<close> on them (an optional
  minus sign, then digits), and an environment built from a transport alone.
\<close>

definition digit_val :: "char \<Rightarrow> nat option" where
  "digit_val c =
     (let n = (of_char c :: nat) in if 48 \<le> n \<and> n \<le> 57 then Some (n - 48) else None)"

fun digits_val :: "nat \<Rightarrow> string \<Rightarrow> nat option" where
  "digits_val acc [] = Some acc"
| "digits_val acc (c # cs) =
     (case digit_val c of None \<Rightarrow> None | Some d \<Rightarrow> digits_val (10 * acc + d) cs)"

definition decimal_int :: "string \<Rightarrow> int option" where
  "decimal_int s =
     (case s of
        [] \<Rightarrow> None
      | c # cs \<Rightarrow>
          if c = CHR ''-'' then (if cs = [] then None else map_option (\<lambda>n. - int n) (digits_val 0 cs))
          else map_option int (digits_val 0 s))"

definition plain_env :: "('w \<Rightarrow> request \<Rightarrow> attempt_outcome \<times> 'w) \<Rightarrow> 'w env" where
  "plain_env tr = \<lparr> http_get = tr, api_token = None, py_int = decimal_int, py_repr = (\<lambda>v. ''...'') \<rparr>"

definition always_timeout :: "unit \<Rightarrow> request \<Rightarrow> attempt_outcome \<times> unit" where
  "always_timeout w rq = (RaiseTimeout, w)"

definition answer_status :: "int \<Rightarrow> unit \<Rightarrow> request \<Rightarrow> attempt_outcome \<times> unit" where
  "answer_status code w rq =
     (Respond \<lparr> status_code = code, http_error = ''HTTP error'', body = JSONDecodeFailure ''no body'' \<rparr>, w)"

definition unnamed_tool :: tool where
  "unnamed_tool =
     \<lparr> truth = True, name = Some (JStr []), description = Some (JStr []), inputSchema = None \<rparr>"

definition search_tool :: tool where
  "search_tool =
     \<lparr> truth = True, name = Some (JStr ''search_cases''),
       description = Some (JStr ''Search cases''),
       inputSchema = Some (JObj [(''type'', JStr ''object'')]) \<rparr>"

definition falsy_tool :: tool where
  "falsy_tool =
     \<lparr> truth = False, name = Some (JStr ''search_cases''),
       description = Some (JStr ''Search cases''), inputSchema = None \<rparr>"

definition undescribed_tool :: tool where
  "undescribed_tool =
     \<lparr> truth = True, name = Some (JStr ''search_cases''), description = None,
       inputSchema = None \<rparr>"

text \<open>A parser that is right on the two argument strings used below: \<open>{}\<close> is the empty
  object, and \<open>{\<close> alone is not JSON.\<close>

definition loads_braces :: "string \<Rightarrow> json option" where
  "loads_braces s = (if s = ''{}'' then Some (JObj []) else None)"

definition silent_model :: "string \<Rightarrow> json list \<Rightarrow> exn + tool_call list option" where
  "silent_model prompt functions = Inr None"

definition two_calls_model :: "string \<Rightarrow> json list \<Rightarrow> exn + tool_call list option" where
  "two_calls_model prompt functions =
     Inr (Some [\<lparr> function_name = ''search_cases'', function_arguments = ''{'' \<rparr>,
                \<lparr> function_name = ''search_cases'', function_arguments = ''{}'' \<rparr>])"

definition echo_tool :: "string \<Rightarrow> json \<Rightarrow> exn + json" where
  "echo_tool nm args = Inr args"

definition client_of ::
  "tool option list \<Rightarrow> (string \<Rightarrow> json list \<Rightarrow> exn + tool_call list option) \<Rightarrow> client_env" where
  "client_of entries model =
     \<lparr> list_tools = entries, chat_completions = model, json_loads = loads_braces,
       call_tool = echo_tool \<rparr>"

definition court_page :: "string \<Rightarrow> json \<Rightarrow> attempt_outcome" where
  "court_page nm nxt =
     Respond \<lparr> status_code = 200, http_error = [],
               body = Decoded (JObj [(''count'', JNum 3), (''next'', nxt),
                                 (''results'', JArr [JObj [(''full_name'', JStr nm)]])]) \<rparr>"

text \<open>A source of three pages with one court each; the page is chosen by the cursor of
  the request.\<close>

definition three_pages :: "unit \<Rightarrow> request \<Rightarrow> attempt_outcome \<times> unit" where
  "three_pages w rq =
     ((case map_of (case params rq of None \<Rightarrow> [] | Some ps \<Rightarrow> ps) ''cursor'' of
         None \<Rightarrow>
           court_page ''Court A''
             (JStr ''https://www.courtlistener.com/api/rest/v4/courts/?cursor=p2'')
       | Some c \<Rightarrow>
           if c = ''p2'' then
             court_page ''Court B''
               (JStr ''https://www.courtlistener.com/api/rest/v4/courts/?cursor=p3&page_size=1'')
           else court_page ''Court C'' JNull), w)"

text \<open>A source that never runs out of pages.\<close>

definition endless_pages :: "unit \<Rightarrow> request \<Rightarrow> attempt_outcome \<times> unit" where
  "endless_pages w rq =
     (court_page ''Court'' (JStr ''https://www.courtlistener.com/api/rest/v4/courts/?cursor=more''), w)"

text \<open>Sources that answer every request with the same page: one court and no \<open>next\<close>
  field, no \<open>results\<close> field at all, or one court and the given \<open>next\<close>.\<close>

definition last_page :: "unit \<Rightarrow> request \<Rightarrow> attempt_outcome \<times> unit" where
  "last_page w rq =
     (Respond \<lparr> status_code = 200, http_error = [],
                body = Decoded (JObj [(''count'', JNum 1),
                                  (''results'', JArr [JObj [(''full_name'', JStr ''Court A'')]])]) \<rparr>,
      w)"

definition no_results_page :: "unit \<Rightarrow> request \<Rightarrow> attempt_outcome \<times> unit" where
  "no_results_page w rq =
     (Respond \<lparr> status_code = 200, http_error = [],
                body = Decoded (JObj [(''count'', JNum 0),
                                  (''next'', JStr ''https://www.courtlistener.com/api/rest/v4/courts/?cursor=p2'')]) \<rparr>,
      w)"

definition page_with_next :: "json \<Rightarrow> unit \<Rightarrow> request \<Rightarrow> attempt_outcome \<times> unit" where
  "page_with_next nxt w rq = (court_page ''Court A'' nxt, w)"

definition null_body :: "unit \<Rightarrow> request \<Rightarrow> attempt_outcome \<times> unit" where
  "null_body w rq = (Respond \<lparr> status_code = 200, http_error = [], body = Decoded JNull \<rparr>, w)"

text \<open>A source whose body is an integer of more digits than Python converts: \<open>json()\<close>
  raises \<open>ValueError\<close>. A transport that cannot encode the request.\<close>

definition huge_number_body :: "unit \<Rightarrow> request \<Rightarrow> attempt_outcome \<times> unit" where
  "huge_number_body w rq =
     (Respond \<lparr> status_code = 200, http_error = [], body = JsonRaises ValueError \<rparr>, w)"

definition unencodable :: "unit \<Rightarrow> request \<Rightarrow> attempt_outcome \<times> unit" where
  "unencodable w rq = (RaiseOther UnicodeEncodeError, w)"

text \<open>What the API answers for opinions: the cluster of an opinion is the URL of the
  cluster.\<close>

definition opinion_page :: "unit \<Rightarrow> request \<Rightarrow> attempt_outcome \<times> unit" where
  "opinion_page w rq =
     (Respond \<lparr> status_code = 200, http_error = [],
                body = Decoded (JObj [(''next'', JNull),
                  (''results'',
                   JArr [JObj [(''cluster'',
                     JStr ''https://www.courtlistener.com/api/rest/v4/clusters/1/'')]])]) \<rparr>,
      w)"

section \<open>Properties of make_api_request\<close>

lemma sleeps_append: "sleeps (xs @ ys) = sleeps xs @ sleeps ys"
  by (induction xs rule: sleeps.induct) simp_all

lemma gets_append: "gets (xs @ ys) = gets xs @ gets ys"
  by (induction xs rule: gets.induct) simp_all

lemma api_calls_append: "api_calls (xs @ ys) = api_calls xs @ api_calls ys"
  by (induction xs rule: api_calls.induct) simp_all

lemma exhausted_timeout: "exhausted n (error_dict (timed_out_message n))"
  by (simp add: exhausted_def error_dict_def)

lemma exhausted_failed: "exhausted n (error_dict (request_failed_message n e))"
  by (simp add: exhausted_def error_dict_def request_failed_message_def)

lemma snd_requests_get: "snd (snd (requests_get env rq io)) = snd io @ [Get rq]"
  by (simp add: requests_get_def Let_def)

lemma retryable_requests_get:
  "\<forall>w. retryable (fst (http_get env w rq)) \<Longrightarrow> retryable (fst (requests_get env rq io))"
  by (simp add: requests_get_def Let_def)

lemma backoff_range:
  "0 \<le> a \<Longrightarrow> a < n - 1 \<Longrightarrow>
     [nat a ..< nat (n - 1)] = nat a # [nat (a + 1) ..< nat (n - 1)]"
proof -
  assume a: "0 \<le> a" "a < n - 1"
  then have "nat a < nat (n - 1)" by simp
  then have "[nat a ..< nat (n - 1)] = nat a # [Suc (nat a) ..< nat (n - 1)]"
    by (rule upt_conv_Cons)
  moreover have "Suc (nat a) = nat (a + 1)" using a by simp
  ultimately show ?thesis by simp
qed

lemma backoff_last: "0 \<le> a \<Longrightarrow> a < n \<Longrightarrow> \<not> a < n - 1 \<Longrightarrow> [nat a ..< nat (n - 1)] = [] \<and> nat (n - a) = 1"
  by auto

lemma replicate_step: "0 \<le> a \<Longrightarrow> a < n - 1 \<Longrightarrow> replicate (nat (n - a)) x = x # replicate (nat (n - (a + 1))) x"
proof -
  assume "0 \<le> a" "a < n - 1"
  then have "nat (n - a) = Suc (nat (n - (a + 1)))" by simp
  then show ?thesis by simp
qed

lemma attempts_all_retryable:
  assumes R: "\<forall>w. retryable (fst (http_get env w rq))"
  shows "0 \<le> a \<Longrightarrow> a < n \<Longrightarrow>
    (\<exists>v. fst (attempts env rq n a io) = Inr v \<and> exhausted n v) \<and>
    sleeps (snd (snd (attempts env rq n a io))) = sleeps (snd io) @ map (\<lambda>k. 2 ^ k) [nat a ..< nat (n - 1)] \<and>
    gets (snd (snd (attempts env rq n a io))) = gets (snd io) @ replicate (nat (n - a)) rq"
  using R
proof (induction env rq n a io rule: attempts.induct)
  case (1 env rq retries attempt io)
  define got where "got = requests_get env rq io"
  have rt: "retryable (fst got)"
    unfolding got_def using "1.prems"(3) by (rule retryable_requests_get)
  have tr: "snd (snd got) = snd io @ [Get rq]"
    unfolding got_def by (rule snd_requests_get)
  show ?case
  proof (cases "attempt < retries - 1")
    case True
    let ?io2 = "emit (Sleep (2 ^ nat attempt)) (snd got)"
    have step: "attempts env rq retries attempt io = attempts env rq retries (attempt + 1) ?io2"
      using rt True "1.prems"(2)
      by (subst attempts.simps) (simp add: got_def Let_def retryable_def split: try_result.splits)
    have tr2: "snd ?io2 = snd io @ [Get rq, Sleep (2 ^ nat attempt)]"
      by (simp add: emit_def tr)
    have ih: "(\<exists>v. fst (attempts env rq retries (attempt + 1) ?io2) = Inr v \<and> exhausted retries v) \<and>
      sleeps (snd (snd (attempts env rq retries (attempt + 1) ?io2))) =
        sleeps (snd ?io2) @ map (\<lambda>k. 2 ^ k) [nat (attempt + 1) ..< nat (retries - 1)] \<and>
      gets (snd (snd (attempts env rq retries (attempt + 1) ?io2))) =
        gets (snd ?io2) @ replicate (nat (retries - (attempt + 1))) rq"
    proof (cases "try_body (fst got)")
      case (Return v)
      with rt show ?thesis by (simp add: retryable_def)
    next
      case (Raised_Other e)
      with rt show ?thesis by (simp add: retryable_def)
    next
      case Raised_Timeout
      show ?thesis
        using "1.IH"(1)[OF _ got_def refl Raised_Timeout True] "1.prems" True
        by (simp add: got_def)
    next
      case (Raised_RequestException e)
      show ?thesis
        using "1.IH"(2)[OF _ got_def refl Raised_RequestException True] "1.prems" True
        by (simp add: got_def)
    qed
    show ?thesis
      unfolding step using ih "1.prems"(1) True
      by (simp only: tr2 sleeps_append gets_append backoff_range[OF "1.prems"(1) True] replicate_step[OF "1.prems"(1) True]) simp
  next
    case False
    have res: "(\<exists>v. fst (attempts env rq retries attempt io) = Inr v \<and> exhausted retries v) \<and>
        snd (attempts env rq retries attempt io) = snd got"
      using rt False "1.prems"(2)
      by (subst (1 2) attempts.simps)
         (simp add: got_def Let_def retryable_def exhausted_timeout exhausted_failed
            split: try_result.splits)
    show ?thesis
      using res backoff_last[OF "1.prems"(1,2) False]
      by (simp add: tr sleeps_append gets_append)
  qed
qed

text \<open>
  C1. For every retry budget \<open>n \<ge> 1\<close>: when every attempt fails with a retryable error
  (the transport raises \<open>Timeout\<close> or another \<open>RequestException\<close>, in which the HTTP errors
  of \<open>raise_for_status\<close> are included), the call sleeps exactly \<open>n - 1\<close> times, for
  \<open>2^0, 2^1, \<dots>, 2^(n-2)\<close> seconds in this order, makes \<open>n\<close> GETs, and returns an error
  dictionary whose text names the \<open>n\<close> attempts.
\<close>

theorem retries_exhausted_backoff:
  assumes "1 \<le> n" and "\<forall>w rq. retryable (fst (http_get env w rq))"
  shows "(\<exists>v. fst (make_api_request env endpoint ps n io) = Inr v \<and> exhausted n v) \<and>
         sleeps (snd (snd (make_api_request env endpoint ps n io)))
           = sleeps (snd io) @ map (\<lambda>k. 2 ^ k) [0 ..< nat (n - 1)] \<and>
         length (gets (snd (snd (make_api_request env endpoint ps n io))))
           = length (gets (snd io)) + nat n"
proof -
  let ?io = "emit (ApiCall endpoint ps n) io"
  have "0 \<le> (0::int)" "0 < n" using assms(1) by simp_all
  moreover have "\<forall>w. retryable (fst (http_get env w (build_request env endpoint ps)))"
    using assms(2) by simp
  ultimately show ?thesis
    using attempts_all_retryable[of env "build_request env endpoint ps" 0 n ?io]
    by (simp add: make_api_request_def emit_def sleeps_append gets_append)
qed

theorem retries_exhausted_backoff_witness:
  "(\<exists>v. fst (make_api_request (plain_env always_timeout) ''search'' None 3 ((), [])) = Inr v \<and> exhausted 3 v) \<and>
   sleeps (snd (snd (make_api_request (plain_env always_timeout) ''search'' None 3 ((), []))))
     = [1, 2] \<and>
   length (gets (snd (snd (make_api_request (plain_env always_timeout) ''search'' None 3 ((), []))))) = 3"
  using retries_exhausted_backoff[of 3 "plain_env always_timeout" "''search''" None "((), [])"]
  by (simp add: retryable_def try_body_def plain_env_def always_timeout_def eval_nat_numeral)

text \<open>
  A response with status 429, 401 or 404 ends the loop at whichever attempt it arrives:
  the error is returned after that one GET, with no sleep and no further attempt.
\<close>

lemma attempts_terminal_status:
  assumes "attempt < retries"
    and "fst (http_get env (fst io) rq) = Respond r"
    and "status_code r = 429 \<or> status_code r = 401 \<or> status_code r = 404"
  shows "attempts env rq retries attempt io =
           (Inr (error_dict (if status_code r = 429 then rate_limit_message
                             else if status_code r = 401 then auth_failed_message
                             else not_found_message)),
            (snd (http_get env (fst io) rq), snd io @ [Get rq]))"
  using assms
  by (subst attempts.simps) (auto simp add: requests_get_def try_body_def Let_def)

text \<open>
  C2. For every request and every retry budget: when the response has status 429, 401 or
  404, \<open>make_api_request\<close> returns at once the error dictionary of that status (rate
  limit, authentication, not found); the trace holds the one GET and no sleep. A budget
  below 1 makes no request at all, so there is no response then.
\<close>

theorem terminal_status_no_retry:
  assumes "0 < retries"
    and "fst (http_get env (fst io) (build_request env endpoint ps)) = Respond r"
    and "status_code r = 429 \<or> status_code r = 401 \<or> status_code r = 404"
  shows "make_api_request env endpoint ps retries io =
           (Inr (error_dict (if status_code r = 429 then rate_limit_message
                             else if status_code r = 401 then auth_failed_message
                             else not_found_message)),
            (snd (http_get env (fst io) (build_request env endpoint ps)),
             snd io @ [ApiCall endpoint ps retries, Get (build_request env endpoint ps)]))"
  unfolding make_api_request_def
  using attempts_terminal_status[of 0 retries env "emit (ApiCall endpoint ps retries) io"
      "build_request env endpoint ps" r] assms
  by (simp add: emit_def)

theorem terminal_status_no_retry_witness:
  "make_api_request (plain_env (answer_status 429)) ''search'' None 3 ((), []) =
     (Inr (error_dict rate_limit_message),
      ((), [ApiCall ''search'' None 3, Get (build_request (plain_env (answer_status 429)) ''search'' None)]))"
  using terminal_status_no_retry[of 3 "plain_env (answer_status 429)" "((), [])" "''search''" None
      "\<lparr> status_code = 429, http_error = ''HTTP error'', body = JSONDecodeFailure ''no body'' \<rparr>"]
  by (simp add: plain_env_def answer_status_def)

section \<open>Properties of the dispatch cycle\<close>

lemma truthy_tool_schema: "truthy (tool_schema nm ds ps)"
  by (simp add: tool_schema_def)

lemma collect_functions_accepted:
  "collect_functions entries functions = Inr fs \<Longrightarrow> fs = functions @ accepted_schemas entries"
proof (induction entries arbitrary: "functions")
  case Nil
  then show ?case by (simp add: accepted_schemas_def)
next
  case (Cons entry entries)
  from Cons.prems obtain c where c: "convert_to_llm_tool entry = Inr c"
    by (auto split: sum.splits)
  show ?case
  proof (cases c)
    case None
    with c Cons.prems have "collect_functions entries functions = Inr fs"
      by (auto split: sum.splits)
    from Cons.IH[OF this] c None show ?thesis by (simp add: accepted_schemas_def)
  next
    case (Some sch)
    with c have "truthy sch"
      by (auto simp: convert_to_llm_tool_def truthy_tool_schema
          split: option.splits sum.splits if_splits)
    with c Some Cons.prems have "collect_functions entries (functions @ [sch]) = Inr fs"
      by (auto split: sum.splits)
    from Cons.IH[OF this] c Some show ?thesis by (simp add: accepted_schemas_def)
  qed
qed

text \<open>
  C5, as stated, fails: a descriptor whose name and description are the empty string has
  both attributes, so \<open>convert_to_llm_tool\<close> returns a schema for it, and \<open>run\<close> sends that
  schema to the model.
\<close>

theorem empty_descriptor_counterexample:
  "convert_to_llm_tool (Some unnamed_tool) = Inr (Some (tool_schema (JStr []) (JStr []) (JObj []))) \<and>
   run (client_of [Some unnamed_tool] silent_model)
     = (None, [LLMRequest the_prompt [tool_schema (JStr []) (JStr []) (JObj [])]])"
  by (simp add: convert_to_llm_tool_def unnamed_tool_def schema_properties_def run_def
      client_of_def silent_model_def print_tool_def call_llm_def tool_schema_def)

text \<open>
  C5, amended. \<open>convert_to_llm_tool\<close> returns no schema exactly for an entry that is
  falsy (Python's \<open>None\<close> included) or lacks the \<open>name\<close> or the \<open>description\<close>
  attribute (an empty name or description is accepted as it is); a truthy descriptor that
  has both and has no parameter properties (no \<open>inputSchema\<close>, a falsy one, or one without
  the key \<open>properties\<close>) gets \<open>properties\<close> equal to the empty object; and the list that
  \<open>run\<close> collects holds the schemas of the accepted entries only, in their order.
\<close>

theorem convert_rejects_missing_attributes:
  "(convert_to_llm_tool entry = Inr None \<longleftrightarrow>
      (case entry of
         None \<Rightarrow> True
       | Some t \<Rightarrow> \<not> truth t \<or> name t = None \<or> description t = None)) \<and>
   (\<forall>t nm ds. truth t \<and> name t = Some nm \<and> description t = Some ds \<and>
      no_parameter_properties t \<longrightarrow>
      convert_to_llm_tool (Some t) = Inr (Some (tool_schema nm ds (JObj [])))) \<and>
   (\<forall>fs. collect_functions entries [] = Inr fs \<longrightarrow> fs = accepted_schemas entries)"
proof (intro conjI allI impI)
  show "convert_to_llm_tool entry = Inr None \<longleftrightarrow>
      (case entry of
         None \<Rightarrow> True
       | Some t \<Rightarrow> \<not> truth t \<or> name t = None \<or> description t = None)"
    by (auto simp: convert_to_llm_tool_def split: option.splits sum.splits if_splits)
next
  fix t nm ds
  assume "truth t \<and> name t = Some nm \<and> description t = Some ds \<and>
      no_parameter_properties t"
  then show "convert_to_llm_tool (Some t) = Inr (Some (tool_schema nm ds (JObj [])))"
    by (auto simp: convert_to_llm_tool_def schema_properties_def no_parameter_properties_def
        split: option.splits)
next
  fix fs
  assume "collect_functions entries [] = Inr fs"
  from collect_functions_accepted[OF this] show "fs = accepted_schemas entries" by simp
qed

theorem convert_rejects_missing_attributes_witness:
  "convert_to_llm_tool (Some undescribed_tool) = Inr None \<and>
   convert_to_llm_tool (Some falsy_tool) = Inr None \<and>
   convert_to_llm_tool (Some unnamed_tool) = Inr (Some (tool_schema (JStr []) (JStr []) (JObj []))) \<and>
   collect_functions [Some undescribed_tool, Some search_tool] []
     = Inr [tool_schema (JStr ''search_cases'') (JStr ''Search cases'') (JObj [])] \<and>
   accepted_schemas [Some undescribed_tool, Some search_tool]
     = [tool_schema (JStr ''search_cases'') (JStr ''Search cases'') (JObj [])]"
  using convert_rejects_missing_attributes[of "Some undescribed_tool" "[Some undescribed_tool, Some search_tool]"]
    convert_rejects_missing_attributes[of "Some falsy_tool" "[]"]
  by (simp add: undescribed_tool_def unnamed_tool_def search_tool_def falsy_tool_def
      convert_to_llm_tool_def
      schema_properties_def print_tool_def accepted_schemas_def truthy_tool_schema)


lemma parse_tool_calls_succeeds:
  "\<forall>c \<in> set cs. loads (function_arguments c) \<noteq> None \<Longrightarrow>
     parse_tool_calls loads cs acc
       = Inr (acc @ map (\<lambda>c. (function_name c, the (loads (function_arguments c)))) cs)"
  by (induction cs arbitrary: acc) (auto split: option.splits)

lemma call_tools_events:
  "LLMRequest p fs \<in> set (snd (call_tools env cs tr)) \<longleftrightarrow> LLMRequest p fs \<in> set tr"
  by (induction cs arbitrary: tr) (auto split: sum.splits)




text \<open>
  C9. When no schema remains after conversion and filtering, \<open>run\<close> reports that no valid
  tool was found and returns without a request to the model; and whatever the
  environment, a request to the model never carries an empty schema list.
\<close>

theorem no_model_call_without_schemas:
  "(collect_functions (list_tools env) [] = Inr [] \<longrightarrow> run env = (None, [NoValidTools])) \<and>
   (\<forall>p fs. LLMRequest p fs \<in> set (snd (run env)) \<longrightarrow> fs \<noteq> [])"
proof (intro conjI allI impI)
  assume "collect_functions (list_tools env) [] = Inr []"
  then show "run env = (None, [NoValidTools])" by (simp add: run_def)
next
  fix p fs
  assume a: "LLMRequest p fs \<in> set (snd (run env))"
  show "fs \<noteq> []"
  proof (cases "collect_functions (list_tools env) []")
    case (Inl e)
    with a show ?thesis by (simp add: run_def)
  next
    case (Inr fns)
    show ?thesis
    proof (cases "fns = []")
      case True
      with a Inr show ?thesis by (simp add: run_def)
    next
      case False
      have tr: "snd (call_llm env the_prompt fns []) = [LLMRequest the_prompt fns]"
        by (simp add: call_llm_def Let_def split: sum.splits option.splits)
      from a Inr False tr have "LLMRequest p fs \<in> set [LLMRequest the_prompt fns]"
        by (auto simp: run_def Let_def call_tools_events split: sum.splits)
      with False show ?thesis by simp
    qed
  qed
qed

theorem no_model_call_without_schemas_witness:
  "collect_functions (list_tools (client_of [Some undescribed_tool] two_calls_model)) [] = Inr [] \<and>
   run (client_of [Some undescribed_tool] two_calls_model) = (None, [NoValidTools]) \<and>
   LLMRequest the_prompt [tool_schema (JStr ''search_cases'') (JStr ''Search cases'') (JObj [])]
     \<in> set (snd (run (client_of [Some search_tool] silent_model)))"
  using no_model_call_without_schemas[of "client_of [Some undescribed_tool] two_calls_model"]
    no_model_call_without_schemas[of "client_of [Some search_tool] silent_model"]
  by (simp add: client_of_def undescribed_tool_def search_tool_def print_tool_def
      convert_to_llm_tool_def schema_properties_def run_def call_llm_def silent_model_def
      truthy_tool_schema)

section \<open>Properties of search_with_pagination\<close>

text \<open>The equations that evaluate a run on a concrete source.\<close>

lemmas eval_page =
  search_with_pagination_def valid_search_types_def max_pages_int_def plain_env_def
  decimal_int_def digit_val_def initial_params_def pagination_loop.simps set_cursor_def
  make_api_request_def attempts.simps requests_get_def try_body_def raise_for_status_def
  build_request_def emit_def get_api_token_def court_page_def page_step_def after_results_def
  extract_cursor_def py_split.simps py_index_def Let_def

lemma str_nat_small: "n < 10 \<Longrightarrow> str_nat n = [digit_char n]"
  by (cases n) (simp_all add: str_nat_def)

lemma digit_char_values:
  "digit_char 0 = CHR ''0''" "digit_char (Suc 0) = CHR ''1''" "digit_char (Suc (Suc 0)) = CHR ''2''"
  "digit_char 1 = CHR ''1''" "digit_char 2 = CHR ''2''" "digit_char 3 = CHR ''3''"
  by code_simp+

lemmas eval_text =
  format_results_def format_item_def title_of_def py_str_def found_header_def str_int_def
  str_nat_small digit_char_values

lemma api_calls_attempts:
  "api_calls (snd (snd (attempts env rq retries attempt io))) = api_calls (snd io)"
proof (induction env rq retries attempt io rule: attempts.induct)
  case (1 env rq retries attempt io)
  define got where "got = requests_get env rq io"
  have tr: "api_calls (snd (snd got)) = api_calls (snd io)"
    by (simp add: got_def requests_get_def Let_def api_calls_append)
  have sl: "api_calls (snd (emit (Sleep d) (snd got))) = api_calls (snd io)" for d
    by (simp add: emit_def api_calls_append tr)
  show ?case
  proof (cases "attempt < retries")
    case False
    then show ?thesis by (subst attempts.simps) simp
  next
    case True
    show ?thesis
    proof (cases "try_body (fst got)")
      case (Return v)
      with True tr show ?thesis
        by (subst attempts.simps) (simp add: got_def Let_def)
    next
      case (Raised_Other e)
      with True tr show ?thesis
        by (subst attempts.simps) (simp add: got_def Let_def)
    next
      case Raised_Timeout
      show ?thesis
      proof (cases "attempt < retries - 1")
        case less: True
        from "1.IH"(1)[OF True got_def refl Raised_Timeout less] sl
        have "api_calls (snd (snd (attempts env rq retries (attempt + 1)
                 (emit (Sleep (2 ^ nat attempt)) (snd got))))) = api_calls (snd io)"
          by (simp add: got_def)
        with True less Raised_Timeout show ?thesis
          by (subst attempts.simps) (simp add: got_def Let_def)
      next
        case False
        with True Raised_Timeout tr show ?thesis
          by (subst attempts.simps) (simp add: got_def Let_def)
      qed
    next
      case (Raised_RequestException e)
      show ?thesis
      proof (cases "attempt < retries - 1")
        case less: True
        from "1.IH"(2)[OF True got_def refl Raised_RequestException less] sl
        have "api_calls (snd (snd (attempts env rq retries (attempt + 1)
                 (emit (Sleep (2 ^ nat attempt)) (snd got))))) = api_calls (snd io)"
          by (simp add: got_def)
        with True less Raised_RequestException show ?thesis
          by (subst attempts.simps) (simp add: got_def Let_def)
      next
        case False
        with True Raised_RequestException tr show ?thesis
          by (subst attempts.simps) (simp add: got_def Let_def)
      qed
    qed
  qed
qed

lemma api_calls_make_api_request:
  "api_calls (snd (snd (make_api_request env endpoint ps retries io)))
     = api_calls (snd io) @ [(endpoint, ps)]"
  by (simp add: make_api_request_def api_calls_attempts emit_def api_calls_append)

text \<open>The number of requests that the loop still makes is bounded by the pages that are
  left.\<close>

lemma pagination_loop_fetches:
  "length (api_calls (snd (snd (pagination_loop env st max_pages ps rs c pages_fetched io))))
     \<le> length (api_calls (snd io)) + nat (max_pages - pages_fetched)"
proof (induction env st max_pages ps rs c pages_fetched io rule: pagination_loop.induct)
  case (1 env st max_pages ps rs c pages_fetched io)
  show ?case
  proof (cases "pages_fetched < max_pages")
    case False
    then show ?thesis by (subst pagination_loop.simps) simp
  next
    case True
    define ps1 where "ps1 = set_cursor c ps"
    define got where "got = make_api_request env st (Some ps1) 3 io"
    have n: "length (api_calls (snd (snd got))) = Suc (length (api_calls (snd io)))"
      by (simp add: got_def api_calls_make_api_request)
    have left: "Suc (nat (max_pages - (pages_fetched + 1))) = nat (max_pages - pages_fetched)"
      using True by simp
    show ?thesis
    proof (cases "fst got")
      case (Inl e)
      with True n left show ?thesis
        by (subst pagination_loop.simps) (simp add: ps1_def got_def Let_def)
    next
      case (Inr result)
      show ?thesis
      proof (cases "page_step result rs pages_fetched")
      case (StepContinue rs' c')
      from "1.IH"[OF True ps1_def got_def Inr StepContinue] n left
      have "length (api_calls (snd (snd (pagination_loop env st max_pages ps1 rs' c'
               (pages_fetched + 1) (snd got)))))
             \<le> length (api_calls (snd io)) + nat (max_pages - pages_fetched)"
        by simp
      with True Inr StepContinue show ?thesis
        by (subst pagination_loop.simps) (simp add: ps1_def got_def Let_def)
    next
      case (StepReturn v)
      with True Inr n left show ?thesis
        by (subst pagination_loop.simps) (simp add: ps1_def got_def Let_def)
    next
      case (StepBreak rs' n')
      with True Inr n left show ?thesis
        by (subst pagination_loop.simps) (simp add: ps1_def got_def Let_def)
    next
      case (StepRaise e)
      with True Inr n left show ?thesis
        by (subst pagination_loop.simps) (simp add: ps1_def got_def Let_def)
      qed
    qed
  qed
qed

lemma search_with_pagination_fetches:
  "length (api_calls (snd (snd (search_with_pagination env st q c max_pages io))))
     \<le> length (api_calls (snd io)) + nat (max_pages_int env max_pages)"
proof (cases "st \<in> set valid_search_types")
  case False
  then show ?thesis by (simp add: search_with_pagination_def)
next
  case True
  have "snd (search_with_pagination env st q c max_pages io)
          = snd (pagination_loop env st (max_pages_int env max_pages) (initial_params st q c) [] c 0 io)"
    using True by (simp add: search_with_pagination_def Let_def split: loop_exit.splits)
  with pagination_loop_fetches[of env st "max_pages_int env max_pages" "initial_params st q c" "[]" c 0 io]
  show ?thesis by simp
qed

text \<open>
  C6. The page ceiling is at most 10 whatever \<open>max_pages\<close> is, and one call of
  \<open>search_with_pagination\<close> makes at most as many page fetches as the ceiling; when \<open>max_pages\<close> reads as
  the integer \<open>requested\<close>, the ceiling is \<open>min(requested, 10)\<close> and one call of
  \<open>search_with_pagination\<close> makes at most that many page fetches (none when the number is
  not positive); and against the source of three pages of one result each, with
  \<open>max_pages = 2\<close>, the tool fetches two pages and returns the text that reports 2 items
  across 2 pages.
\<close>

theorem page_fetches_bounded:
  "max_pages_int env max_pages \<le> 10 \<and>
   length (api_calls (snd (snd (search_with_pagination env st q c max_pages (w, [])))))
     \<le> nat (max_pages_int env max_pages) \<and>
   (\<forall>requested. py_int env max_pages = Some requested \<longrightarrow>
      max_pages_int env max_pages = min requested 10 \<and>
      length (api_calls (snd (snd (search_with_pagination env st q c max_pages (w, [])))))
        \<le> nat (min requested 10)) \<and>
   search_with_pagination (plain_env three_pages) ''courts'' [] [] ''2'' ((), [])
     = (Inr (JStr (''Found 2 courts across 2 pages:'' @ newline @ newline
          @ ''1. Court A'' @ newline @ newline @ ''2. Court B'' @ newline @ newline)),
        ((), [ApiCall ''courts'' (Some []) 3,
              Get (build_request (plain_env three_pages) ''courts'' (Some [])),
              ApiCall ''courts'' (Some [(''cursor'', ''p2'')]) 3,
              Get (build_request (plain_env three_pages) ''courts'' (Some [(''cursor'', ''p2'')]))]))"
proof (intro conjI allI impI)
  show "max_pages_int env max_pages \<le> 10"
    by (simp add: max_pages_int_def split: option.splits)
next
  show "length (api_calls (snd (snd (search_with_pagination env st q c max_pages (w, [])))))
          \<le> nat (max_pages_int env max_pages)"
    using search_with_pagination_fetches[of env st q c max_pages "(w, [])"] by simp
next
  fix requested
  assume r: "py_int env max_pages = Some requested"
  then show "max_pages_int env max_pages = min requested 10"
    by (simp add: max_pages_int_def)
  with search_with_pagination_fetches[of env st q c max_pages "(w, [])"]
  show "length (api_calls (snd (snd (search_with_pagination env st q c max_pages (w, [])))))
          \<le> nat (min requested 10)"
    by simp
next
  show "search_with_pagination (plain_env three_pages) ''courts'' [] [] ''2'' ((), [])
     = (Inr (JStr (''Found 2 courts across 2 pages:'' @ newline @ newline
          @ ''1. Court A'' @ newline @ newline @ ''2. Court B'' @ newline @ newline)),
        ((), [ApiCall ''courts'' (Some []) 3,
              Get (build_request (plain_env three_pages) ''courts'' (Some [])),
              ApiCall ''courts'' (Some [(''cursor'', ''p2'')]) 3,
              Get (build_request (plain_env three_pages) ''courts'' (Some [(''cursor'', ''p2'')]))]))"
    by (simp add: eval_page three_pages_def eval_text)
qed

theorem page_fetches_bounded_witness:
  "py_int (plain_env endless_pages) ''50'' = Some 50 \<and>
   max_pages_int (plain_env endless_pages) ''50'' = 10 \<and>
   length (api_calls (snd (snd (search_with_pagination (plain_env endless_pages) ''courts'' [] []
      ''50'' ((), []))))) = 10"
  using page_fetches_bounded[of "plain_env endless_pages" "''50''" "''courts''" "[]" "[]" "()"]
  by (simp add: eval_page endless_pages_def)

section \<open>Properties of the pagination loop and of the cursor\<close>

lemma py_split_first: "sep \<noteq> [] \<Longrightarrow> py_index (py_split sep s) 0 = Inr (before_sep sep s)"
  by (subst py_split.simps) (simp add: py_index_def before_sep_def split: option.splits)

lemma py_split_second:
  "sep \<noteq> [] \<Longrightarrow> find_sep sep s = Some (a, b) \<Longrightarrow>
     py_index (py_split sep s) 1 = Inr (before_sep sep b)"
proof -
  assume sep: "sep \<noteq> []" and f: "find_sep sep s = Some (a, b)"
  have "py_split sep s = a # py_split sep b"
    using sep f by (subst py_split.simps) simp
  moreover have "\<exists>more. py_split sep b = before_sep sep b # more"
    using sep by (subst py_split.simps) (simp add: before_sep_def split: option.splits)
  ultimately obtain more where "py_split sep s = a # before_sep sep b # more" by auto
  then show ?thesis by (simp add: py_index_def)
qed

lemma find_sep_None: "find_sep sep s = None \<longleftrightarrow> \<not> is_substring sep s"
  by (induction s) auto

lemma prefix_is_substring: "prefix sep s \<Longrightarrow> is_substring sep s"
  by (cases s) auto

lemma is_substring_occurrence: "is_substring sep (pre @ sep @ t)"
proof (induction pre)
  case Nil
  show ?case by (rule prefix_is_substring) simp
next
  case (Cons p pre)
  then show ?case by simp
qed

lemma find_sep_first:
  "sep \<noteq> [] \<Longrightarrow> \<not> is_substring sep (pre @ butlast sep) \<Longrightarrow>
     find_sep sep (pre @ sep @ t) = Some (pre, t)"
proof (induction pre)
  case Nil
  then show ?case by (cases sep) auto
next
  case (Cons p pre)
  from Cons.prems(2) have np: "\<not> prefix sep (p # pre @ butlast sep)"
    and ns: "\<not> is_substring sep (pre @ butlast sep)"
    by auto
  have "\<not> prefix sep (p # pre @ sep @ t)"
  proof
    assume a: "prefix sep (p # pre @ sep @ t)"
    have whole: "p # pre @ sep @ t = (p # pre @ butlast sep) @ (last sep # t)"
      using Cons.prems(1) by simp
    have "prefix (p # pre @ butlast sep) (p # pre @ sep @ t)"
      unfolding whole by (rule prefixI) simp
    moreover have "length sep \<le> length (p # pre @ butlast sep)" by simp
    ultimately have "prefix sep (p # pre @ butlast sep)"
      using a by (rule prefix_length_prefix[rotated])
    with np show False by simp
  qed
  with Cons.IH[OF Cons.prems(1) ns] show ?case by simp
qed

lemma before_sep_single: "before_sep [x] s = takeWhile (\<lambda>y. y \<noteq> x) s"
  by (induction s) (auto simp: before_sep_def split: option.splits)

text \<open>A token that holds no \<open>&\<close> and no separator, followed by nothing or by \<open>&\<close>, is what
  the two splits leave.\<close>

lemma token_of_rest:
  assumes "sep \<noteq> []" and "x \<notin> set sep"
  shows "\<not> is_substring sep c \<Longrightarrow> x \<notin> set c \<Longrightarrow> rest = [] \<or> hd rest = x \<Longrightarrow>
     takeWhile (\<lambda>y. y \<noteq> x) (before_sep sep (c @ rest)) = c"
proof (induction c)
  case Nil
  show ?case
  proof (cases rest)
    case Nil
    with assms(1) show ?thesis by (simp add: before_sep_def)
  next
    case (Cons r rs)
    with Nil.prems(3) have r: "r = x" by simp
    have "\<not> prefix sep (x # rs)"
      using assms by (cases sep) auto
    with Cons r show ?thesis
      by (auto simp: before_sep_def split: option.splits)
  qed
next
  case (Cons y c)
  from Cons.prems(1) have np: "\<not> prefix sep (y # c)" and ns: "\<not> is_substring sep c"
    by auto
  have "\<not> prefix sep (y # c @ rest)"
  proof
    assume "prefix sep (y # c @ rest)"
    then have "prefix sep ((y # c) @ rest)" by simp
    then obtain us where us: "sep = (y # c) @ us" "prefix us rest"
      using np unfolding prefix_append by auto
    with np have "us \<noteq> []" by auto
    with us(2) have "rest \<noteq> []" "hd us = hd rest"
      by (auto simp: prefix_def)
    with Cons.prems(3) have "hd us = x" by simp
    with \<open>us \<noteq> []\<close> us(1) have "x \<in> set sep" by (cases us) auto
    with assms(2) show False by simp
  qed
  moreover have "y \<noteq> x" using Cons.prems(2) by auto
  moreover have "takeWhile (\<lambda>y. y \<noteq> x) (before_sep sep (c @ rest)) = c"
    using Cons.IH[OF ns _ Cons.prems(3)] Cons.prems(2) by simp
  ultimately show ?case
    by (auto simp: before_sep_def split: option.splits)
qed

lemma extract_cursor_token:
  assumes "next_url = pre @ ''cursor='' @ c @ rest"
    and "\<not> is_substring ''cursor='' (pre @ ''cursor'')"
    and "CHR ''&'' \<notin> set c"
    and "rest = [] \<or> hd rest = CHR ''&''"
    and "\<not> is_substring ''cursor='' c"
  shows "extract_cursor (JStr next_url) = Inr (Some c)"
proof -
  have f: "find_sep ''cursor='' next_url = Some (pre, c @ rest)"
    unfolding assms(1) using assms(2) by (intro find_sep_first) simp_all
  have "is_substring ''cursor='' next_url"
    unfolding assms(1) by (rule is_substring_occurrence)
  moreover have "py_index (py_split ''cursor='' next_url) 1 = Inr (before_sep ''cursor='' (c @ rest))"
    using f by (intro py_split_second) simp_all
  moreover have "py_index (py_split ''&'' (before_sep ''cursor='' (c @ rest))) 0
      = Inr (takeWhile (\<lambda>y. y \<noteq> CHR ''&'') (before_sep ''cursor='' (c @ rest)))"
    by (simp add: py_split_first before_sep_single)
  moreover have "takeWhile (\<lambda>y. y \<noteq> CHR ''&'') (before_sep ''cursor='' (c @ rest)) = c"
    using assms(5,3,4) by (intro token_of_rest) simp_all
  ultimately show ?thesis by (simp add: extract_cursor_def)
qed

lemma extract_cursor_absent:
  "\<not> is_substring ''cursor='' s \<Longrightarrow> extract_cursor (JStr s) = Inr None"
  by (simp add: extract_cursor_def)

text \<open>When the step after a request leaves the loop, the loop ends with the state right
  after that request: nothing further is fetched.\<close>

lemma pagination_loop_break:
  assumes "pages_fetched < max_pages"
    and "fst (make_api_request env st (Some (set_cursor c ps)) 3 io) = Inr result"
    and "page_step result rs pages_fetched = StepBreak rs' n'"
  shows "pagination_loop env st max_pages ps rs c pages_fetched io
           = (LoopDone rs' n', snd (make_api_request env st (Some (set_cursor c ps)) 3 io))"
  using assms by (subst pagination_loop.simps) (simp add: Let_def)

lemma pagination_loop_no_continue:
  assumes "pages_fetched < max_pages"
    and "fst (make_api_request env st (Some (set_cursor c ps)) 3 io) = Inr result"
    and "\<forall>rs' c'. page_step result rs pages_fetched \<noteq> StepContinue rs' c'"
  shows "snd (pagination_loop env st max_pages ps rs c pages_fetched io)
           = snd (make_api_request env st (Some (set_cursor c ps)) 3 io)"
  using assms by (subst pagination_loop.simps) (simp add: Let_def split: step.splits)

lemma page_step_no_results:
  assumes "map_of kvs ''error'' = None"
    and "map_of kvs ''results'' = None \<or> (\<exists>r. map_of kvs ''results'' = Some r \<and> \<not> truthy r)"
  shows "page_step (JObj kvs) rs n = StepBreak rs n"
  using assms by (auto simp: page_step_def)

lemma page_step_results:
  assumes "map_of kvs ''error'' = None" and "map_of kvs ''results'' = Some (JArr items)"
    and "items \<noteq> []"
  shows "page_step (JObj kvs) rs n = after_results (JObj kvs) (rs @ items) (n + 1)"
  using assms by (simp add: page_step_def)

lemma after_results_falsy_next:
  assumes "map_of kvs ''next'' = None \<or> (\<exists>nx. map_of kvs ''next'' = Some nx \<and> \<not> truthy nx)"
  shows "after_results (JObj kvs) rs n = StepBreak rs n"
  using assms by (auto simp: after_results_def)

lemma page_step_missing_next:
  assumes "map_of kvs ''next'' = None"
  shows "page_step (JObj kvs) rs n \<noteq> StepContinue rs' c'"
  using assms
  by (auto simp: page_step_def after_results_def split: sum.splits option.splits bool.splits)

text \<open>
  C7. At any pass of the loop, for a response that is an object without an \<open>error\<close>
  key: when it has no \<open>next\<close> field the loop ends with the state right after this one
  request, so no further page is fetched (with a list of results, the loop ends with
  these appended and the page counted); when it has no \<open>results\<close> field or a falsy one
  (the empty list) the loop ends at once with what was accumulated before. The request
  itself adds exactly one page fetch to the trace.
\<close>

theorem halts_without_next:
  assumes "pages_fetched < max_pages"
    and "fst (make_api_request env st (Some (set_cursor c ps)) 3 io) = Inr (JObj kvs)"
    and "map_of kvs ''error'' = None"
  shows "(map_of kvs ''next'' = None \<longrightarrow>
            snd (pagination_loop env st max_pages ps rs c pages_fetched io)
              = snd (make_api_request env st (Some (set_cursor c ps)) 3 io)) \<and>
         (\<forall>items. map_of kvs ''next'' = None \<and> map_of kvs ''results'' = Some (JArr items)
              \<and> items \<noteq> [] \<longrightarrow>
            pagination_loop env st max_pages ps rs c pages_fetched io
              = (LoopDone (rs @ items) (pages_fetched + 1),
                 snd (make_api_request env st (Some (set_cursor c ps)) 3 io))) \<and>
         (map_of kvs ''results'' = None \<or> (\<exists>r. map_of kvs ''results'' = Some r \<and> \<not> truthy r) \<longrightarrow>
            pagination_loop env st max_pages ps rs c pages_fetched io
              = (LoopDone rs pages_fetched,
                 snd (make_api_request env st (Some (set_cursor c ps)) 3 io))) \<and>
         api_calls (snd (snd (make_api_request env st (Some (set_cursor c ps)) 3 io)))
           = api_calls (snd io) @ [(st, Some (set_cursor c ps))]"
proof (intro conjI allI impI)
  assume "map_of kvs ''next'' = None"
  then have "\<forall>rs' c'. page_step (JObj kvs) rs pages_fetched \<noteq> StepContinue rs' c'"
    by (simp add: page_step_missing_next)
  with assms(1,2) show "snd (pagination_loop env st max_pages ps rs c pages_fetched io)
      = snd (make_api_request env st (Some (set_cursor c ps)) 3 io)"
    by (intro pagination_loop_no_continue) simp_all
next
  fix items
  assume a: "map_of kvs ''next'' = None \<and> map_of kvs ''results'' = Some (JArr items) \<and> items \<noteq> []"
  then have "page_step (JObj kvs) rs pages_fetched = StepBreak (rs @ items) (pages_fetched + 1)"
    using assms(3) by (simp add: page_step_results after_results_falsy_next)
  with assms(1,2) show "pagination_loop env st max_pages ps rs c pages_fetched io
      = (LoopDone (rs @ items) (pages_fetched + 1),
         snd (make_api_request env st (Some (set_cursor c ps)) 3 io))"
    by (intro pagination_loop_break) simp_all
next
  assume "map_of kvs ''results'' = None \<or> (\<exists>r. map_of kvs ''results'' = Some r \<and> \<not> truthy r)"
  with assms(3) have "page_step (JObj kvs) rs pages_fetched = StepBreak rs pages_fetched"
    by (rule page_step_no_results)
  with assms(1,2) show "pagination_loop env st max_pages ps rs c pages_fetched io
      = (LoopDone rs pages_fetched, snd (make_api_request env st (Some (set_cursor c ps)) 3 io))"
    by (intro pagination_loop_break) simp_all
next
  show "api_calls (snd (snd (make_api_request env st (Some (set_cursor c ps)) 3 io)))
      = api_calls (snd io) @ [(st, Some (set_cursor c ps))]"
    by (rule api_calls_make_api_request)
qed

text \<open>
  C10. A response whose \<open>next\<close> field is there but is \<open>null\<close> or the empty string ends the
  loop exactly as a response without the field does: the results are appended, the page is
  counted, no further page is fetched, and the step taken is the step taken for the same
  response with the field removed.
\<close>

theorem empty_next_ends_pagination:
  assumes "pages_fetched < max_pages"
    and "fst (make_api_request env st (Some (set_cursor c ps)) 3 io) = Inr (JObj kvs)"
    and "map_of kvs ''error'' = None"
    and "map_of kvs ''results'' = Some (JArr items)" and "items \<noteq> []"
    and "map_of kvs ''next'' = Some nx" and "nx = JNull \<or> nx = JStr []"
  shows "pagination_loop env st max_pages ps rs c pages_fetched io
           = (LoopDone (rs @ items) (pages_fetched + 1),
              snd (make_api_request env st (Some (set_cursor c ps)) 3 io)) \<and>
         page_step (JObj kvs) rs pages_fetched
           = page_step (JObj (AList.delete ''next'' kvs)) rs pages_fetched \<and>
         map_of (AList.delete ''next'' kvs) ''next'' = None"
proof -
  from assms(7) have falsy: "\<not> truthy nx" by auto
  have here: "page_step (JObj kvs) rs pages_fetched = StepBreak (rs @ items) (pages_fetched + 1)"
    using assms(3,4,5,6) falsy by (simp add: page_step_results after_results_falsy_next)
  have gone: "page_step (JObj (AList.delete ''next'' kvs)) rs pages_fetched
      = StepBreak (rs @ items) (pages_fetched + 1)"
    using assms(3,4,5)
    by (simp add: page_step_results after_results_falsy_next delete_conv)
  have "pagination_loop env st max_pages ps rs c pages_fetched io
      = (LoopDone (rs @ items) (pages_fetched + 1),
         snd (make_api_request env st (Some (set_cursor c ps)) 3 io))"
    using assms(1,2) here by (intro pagination_loop_break) simp_all
  with here gone show ?thesis by (simp add: delete_conv)
qed

theorem halts_without_next_witness:
  "pagination_loop (plain_env last_page) ''courts'' 3 [] [] [] 0 ((), [])
     = (LoopDone [JObj [(''full_name'', JStr ''Court A'')]] 1,
        ((), [ApiCall ''courts'' (Some []) 3,
              Get (build_request (plain_env last_page) ''courts'' (Some []))])) \<and>
   pagination_loop (plain_env no_results_page) ''courts'' 3 [] [] [] 0 ((), [])
     = (LoopDone [] 0,
        ((), [ApiCall ''courts'' (Some []) 3,
              Get (build_request (plain_env no_results_page) ''courts'' (Some []))]))"
  using halts_without_next[where pages_fetched = 0 and max_pages = 3
      and env = "plain_env last_page" and st = "''courts''" and c = "[]" and ps = "[]"
      and io = "((), [])" and rs = "[]"
      and kvs = "[(''count'', JNum 1), (''results'', JArr [JObj [(''full_name'', JStr ''Court A'')]])]"]
    halts_without_next[where pages_fetched = 0 and max_pages = 3
      and env = "plain_env no_results_page" and st = "''courts''" and c = "[]" and ps = "[]"
      and io = "((), [])" and rs = "[]"
      and kvs = "[(''count'', JNum 0),
                  (''next'', JStr ''https://www.courtlistener.com/api/rest/v4/courts/?cursor=p2'')]"]
  by (simp add: set_cursor_def make_api_request_def attempts.simps requests_get_def try_body_def
      raise_for_status_def emit_def plain_env_def last_page_def no_results_page_def Let_def)

theorem empty_next_ends_pagination_witness:
  "pagination_loop (plain_env (page_with_next JNull)) ''courts'' 3 [] [] [] 0 ((), [])
     = (LoopDone [JObj [(''full_name'', JStr ''Court A'')]] 1,
        ((), [ApiCall ''courts'' (Some []) 3,
              Get (build_request (plain_env (page_with_next JNull)) ''courts'' (Some []))])) \<and>
   pagination_loop (plain_env (page_with_next (JStr []))) ''courts'' 3 [] [] [] 0 ((), [])
     = (LoopDone [JObj [(''full_name'', JStr ''Court A'')]] 1,
        ((), [ApiCall ''courts'' (Some []) 3,
              Get (build_request (plain_env (page_with_next (JStr []))) ''courts'' (Some []))]))"
  using empty_next_ends_pagination[where pages_fetched = 0 and max_pages = 3
      and env = "plain_env (page_with_next JNull)" and st = "''courts''" and c = "[]" and ps = "[]"
      and io = "((), [])" and rs = "[]" and nx = JNull
      and items = "[JObj [(''full_name'', JStr ''Court A'')]]"
      and kvs = "[(''count'', JNum 3), (''next'', JNull),
                  (''results'', JArr [JObj [(''full_name'', JStr ''Court A'')]])]"]
    empty_next_ends_pagination[where pages_fetched = 0 and max_pages = 3
      and env = "plain_env (page_with_next (JStr []))" and st = "''courts''" and c = "[]" and ps = "[]"
      and io = "((), [])" and rs = "[]" and nx = "JStr []"
      and items = "[JObj [(''full_name'', JStr ''Court A'')]]"
      and kvs = "[(''count'', JNum 3), (''next'', JStr []),
                  (''results'', JArr [JObj [(''full_name'', JStr ''Court A'')]])]"]
  by (simp add: set_cursor_def make_api_request_def attempts.simps requests_get_def try_body_def
      raise_for_status_def emit_def plain_env_def page_with_next_def court_page_def Let_def)

lemma after_results_no_cursor:
  assumes "map_of kvs ''next'' = Some (JStr s)" and "\<not> is_substring ''cursor='' s"
  shows "after_results (JObj kvs) rs n = StepBreak rs n"
  using assms by (simp add: after_results_def extract_cursor_absent)

text \<open>
  C8: the code cuts the cursor short. \<open>next_url.split('cursor=')[1]\<close> splits at every
  \<open>cursor=\<close>, so that a second \<open>cursor=\<close> before the next \<open>&\<close> ends the token: for
  \<open>...?cursor=acursor=b&foo=bar\<close> the text between \<open>cursor=\<close> and the following \<open>&\<close> is
  \<open>acursor=b\<close>, and the code extracts \<open>a\<close>. (The comment above the line reads "Extract
  cursor from next URL".)
\<close>

theorem cursor_cut_at_second_marker:
  "extract_cursor (JStr ''https://www.courtlistener.com/api/rest/v4/search/?cursor=acursor=b&foo=bar'')
     = Inr (Some ''a'') \<and>
   cursor_as_worded ''https://www.courtlistener.com/api/rest/v4/search/?cursor=acursor=b&foo=bar''
     = Some ''acursor=b''"
  by (simp add: extract_cursor_def py_split.simps py_index_def cursor_as_worded_def before_sep_def)

text \<open>
  Where the code and the wording agree. For a \<open>next\<close> URL that reads \<open>pre\<close>, \<open>cursor=\<close>,
  \<open>c\<close>, \<open>rest\<close>, where this \<open>cursor=\<close> is the first one, \<open>c\<close> holds no \<open>&\<close> and \<open>rest\<close> is
  empty or starts with \<open>&\<close>: the extracted cursor is exactly \<open>c\<close>, provided \<open>cursor=\<close>
  does not occur again inside \<open>c\<close>. The two URLs of the specification give \<open>abc123\<close> and
  \<open>xyz\<close>. A \<open>next\<close> URL without \<open>cursor=\<close> gives no cursor, and the loop ends with the
  page counted and no further fetch.
\<close>

lemma cursor_between_markers:
  "(\<forall>pre c rest.
      next_url = pre @ ''cursor='' @ c @ rest \<and> \<not> is_substring ''cursor='' (pre @ ''cursor'') \<and>
      CHR ''&'' \<notin> set c \<and> (rest = [] \<or> hd rest = CHR ''&'') \<and> \<not> is_substring ''cursor='' c \<longrightarrow>
      extract_cursor (JStr next_url) = Inr (Some c)) \<and>
   extract_cursor (JStr ''https://www.courtlistener.com/api/rest/v4/search/?cursor=abc123&foo=bar'')
     = Inr (Some ''abc123'') \<and>
   extract_cursor (JStr ''https://www.courtlistener.com/api/rest/v4/search/?cursor=xyz'')
     = Inr (Some ''xyz'') \<and>
   (\<not> is_substring ''cursor='' next_url \<longrightarrow> extract_cursor (JStr next_url) = Inr None) \<and>
   (pages_fetched < max_pages \<and>
    fst (make_api_request env st (Some (set_cursor c0 ps)) 3 io) = Inr (JObj kvs) \<and>
    map_of kvs ''error'' = None \<and> map_of kvs ''results'' = Some (JArr items) \<and> items \<noteq> [] \<and>
    map_of kvs ''next'' = Some (JStr next_url) \<and> \<not> is_substring ''cursor='' next_url \<longrightarrow>
      pagination_loop env st max_pages ps rs c0 pages_fetched io
        = (LoopDone (rs @ items) (pages_fetched + 1),
           snd (make_api_request env st (Some (set_cursor c0 ps)) 3 io)))"
proof (intro conjI allI impI)
  fix pre c rest
  assume "next_url = pre @ ''cursor='' @ c @ rest \<and> \<not> is_substring ''cursor='' (pre @ ''cursor'') \<and>
      CHR ''&'' \<notin> set c \<and> (rest = [] \<or> hd rest = CHR ''&'') \<and> \<not> is_substring ''cursor='' c"
  then show "extract_cursor (JStr next_url) = Inr (Some c)"
    by (intro extract_cursor_token[of next_url pre c rest]) simp_all
next
  show "extract_cursor (JStr ''https://www.courtlistener.com/api/rest/v4/search/?cursor=abc123&foo=bar'')
     = Inr (Some ''abc123'')"
    by (simp add: extract_cursor_def py_split.simps py_index_def)
next
  show "extract_cursor (JStr ''https://www.courtlistener.com/api/rest/v4/search/?cursor=xyz'')
     = Inr (Some ''xyz'')"
    by (simp add: extract_cursor_def py_split.simps py_index_def)
next
  assume "\<not> is_substring ''cursor='' next_url"
  then show "extract_cursor (JStr next_url) = Inr None" by (rule extract_cursor_absent)
next
  assume a: "pages_fetched < max_pages \<and>
    fst (make_api_request env st (Some (set_cursor c0 ps)) 3 io) = Inr (JObj kvs) \<and>
    map_of kvs ''error'' = None \<and> map_of kvs ''results'' = Some (JArr items) \<and> items \<noteq> [] \<and>
    map_of kvs ''next'' = Some (JStr next_url) \<and> \<not> is_substring ''cursor='' next_url"
  then have "page_step (JObj kvs) rs pages_fetched = StepBreak (rs @ items) (pages_fetched + 1)"
    by (simp add: page_step_results after_results_no_cursor)
  with a show "pagination_loop env st max_pages ps rs c0 pages_fetched io
        = (LoopDone (rs @ items) (pages_fetched + 1),
           snd (make_api_request env st (Some (set_cursor c0 ps)) 3 io))"
    by (intro pagination_loop_break) simp_all
qed

lemma cursor_between_markers_example:
  "\<not> is_substring ''cursor='' (''https://www.courtlistener.com/api/rest/v4/opinions/?'' @ ''cursor'') \<and>
   CHR ''&'' \<notin> set ''cD0yMDI0'' \<and> \<not> is_substring ''cursor='' ''cD0yMDI0'' \<and>
   extract_cursor (JStr (''https://www.courtlistener.com/api/rest/v4/opinions/?'' @ ''cursor=''
      @ ''cD0yMDI0'' @ ''&page_size=20'')) = Inr (Some ''cD0yMDI0'') \<and>
   \<not> is_substring ''cursor='' ''https://www.courtlistener.com/api/rest/v4/courts/?page=2'' \<and>
   pagination_loop (plain_env (page_with_next
        (JStr ''https://www.courtlistener.com/api/rest/v4/courts/?page=2''))) ''courts'' 3 [] [] [] 0 ((), [])
     = (LoopDone [JObj [(''full_name'', JStr ''Court A'')]] 1,
        ((), [ApiCall ''courts'' (Some []) 3,
              Get (build_request (plain_env (page_with_next
                 (JStr ''https://www.courtlistener.com/api/rest/v4/courts/?page=2''))) ''courts'' (Some []))]))"
  using cursor_between_markers[where
      next_url = "''https://www.courtlistener.com/api/rest/v4/opinions/?'' @ ''cursor=''
         @ ''cD0yMDI0'' @ ''&page_size=20''", THEN conjunct1, rule_format,
      of "''https://www.courtlistener.com/api/rest/v4/opinions/?''" "''cD0yMDI0''" "''&page_size=20''"]
    cursor_between_markers[where
      next_url = "''https://www.courtlistener.com/api/rest/v4/courts/?page=2''"
      and pages_fetched = 0 and max_pages = 3
      and env = "plain_env (page_with_next (JStr ''https://www.courtlistener.com/api/rest/v4/courts/?page=2''))"
      and st = "''courts''" and ?c0.0 = "[]" and ps = "[]"
      and io = "((), [])" and rs = "[]"
      and items = "[JObj [(''full_name'', JStr ''Court A'')]]"
      and kvs = "[(''count'', JNum 3),
                  (''next'', JStr ''https://www.courtlistener.com/api/rest/v4/courts/?page=2''),
                  (''results'', JArr [JObj [(''full_name'', JStr ''Court A'')]])]"]
  by (simp add: set_cursor_def make_api_request_def attempts.simps requests_get_def try_body_def
      raise_for_status_def emit_def plain_env_def page_with_next_def court_page_def Let_def)

section \<open>Failures as values\<close>

lemma try_body_Return:
  "try_body out = Return v \<Longrightarrow>
     (\<exists>m. v = error_dict m) \<or> (\<exists>r. out = Respond r \<and> body r = Decoded v)"
  by (auto simp: try_body_def
      split: attempt_outcome.splits if_splits option.splits json_outcome.splits)

text \<open>When every attempt on the request raises nothing but a \<open>requests\<close> exception, the
  loop of attempts ends with a value: an error dictionary or what an attempt returned.\<close>

lemma attempts_value:
  assumes e: "\<And>m. P (error_dict m)"
  shows "(\<And>w v. try_body (fst (http_get env w rq)) = Return v \<Longrightarrow> P v) \<Longrightarrow>
         (\<And>w. handled (fst (http_get env w rq))) \<Longrightarrow>
         \<exists>v. fst (attempts env rq retries attempt io) = Inr v \<and> P v"
proof (induction env rq retries attempt io rule: attempts.induct)
  case (1 env rq retries attempt io)
  note b = "1.prems"(1) and h = "1.prems"(2)
  define got where "got = requests_get env rq io"
  have fg: "fst got = fst (http_get env (fst io) rq)"
    by (simp add: got_def requests_get_def Let_def)
  show ?case
  proof (cases "attempt < retries")
    case False
    then show ?thesis using e by (subst attempts.simps) simp
  next
    case True
    show ?thesis
    proof (cases "try_body (fst got)")
      case (Return v)
      then have "P v" using b[of "fst io" v] fg by simp
      with True Return show ?thesis
        by (subst attempts.simps) (simp add: got_def Let_def)
    next
      case (Raised_Other x)
      with h[of "fst io"] fg show ?thesis by (simp add: handled_def)
    next
      case Raised_Timeout
      show ?thesis
      proof (cases "attempt < retries - 1")
        case less: True
        from "1.IH"(1)[OF True got_def refl Raised_Timeout less b h]
        have "\<exists>v. fst (attempts env rq retries (attempt + 1)
                 (emit (Sleep (2 ^ nat attempt)) (snd got))) = Inr v \<and> P v"
          by (simp add: got_def)
        with True less Raised_Timeout show ?thesis
          by (subst attempts.simps) (simp add: got_def Let_def)
      next
        case False
        with True Raised_Timeout e show ?thesis
          by (subst attempts.simps) (simp add: got_def Let_def)
      qed
    next
      case (Raised_RequestException m)
      show ?thesis
      proof (cases "attempt < retries - 1")
        case less: True
        from "1.IH"(2)[OF True got_def refl Raised_RequestException less b h]
        have "\<exists>v. fst (attempts env rq retries (attempt + 1)
                 (emit (Sleep (2 ^ nat attempt)) (snd got))) = Inr v \<and> P v"
          by (simp add: got_def)
        with True less Raised_RequestException show ?thesis
          by (subst attempts.simps) (simp add: got_def Let_def)
      next
        case False
        with True Raised_RequestException e show ?thesis
          by (subst attempts.simps) (simp add: got_def Let_def)
      qed
    qed
  qed
qed

text \<open>The trace only grows, and an attempt puts its GET on it.\<close>

lemma attempts_trace:
  "\<exists>t. snd (snd (attempts env rq retries attempt io)) = snd io @ t \<and>
       (attempt < retries \<longrightarrow> Get rq \<in> set t)"
proof (induction env rq retries attempt io rule: attempts.induct)
  case (1 env rq retries attempt io)
  define got where "got = requests_get env rq io"
  have tr: "snd (snd got) = snd io @ [Get rq]"
    unfolding got_def by (rule snd_requests_get)
  have sl: "snd (emit (Sleep d) (snd got)) = snd io @ [Get rq, Sleep d]" for d
    by (simp add: emit_def tr)
  show ?case
  proof (cases "attempt < retries")
    case False
    then show ?thesis by (subst attempts.simps) simp
  next
    case True
    have stop: "snd (attempts env rq retries attempt io) = snd got \<Longrightarrow> ?thesis"
      using tr True by simp
    have go: "attempts env rq retries attempt io
          = attempts env rq retries (attempt + 1) (emit (Sleep (2 ^ nat attempt)) (snd got))
        \<Longrightarrow> \<exists>t. snd (snd (attempts env rq retries (attempt + 1)
                 (emit (Sleep (2 ^ nat attempt)) (snd got))))
               = snd (emit (Sleep (2 ^ nat attempt)) (snd got)) @ t
        \<Longrightarrow> ?thesis"
      using sl True by auto
    show ?thesis
    proof (cases "try_body (fst got)")
      case (Return v)
      with True show ?thesis
        by (intro stop) (subst attempts.simps, simp add: got_def Let_def)
    next
      case (Raised_Other x)
      with True show ?thesis
        by (intro stop) (subst attempts.simps, simp add: got_def Let_def)
    next
      case Raised_Timeout
      show ?thesis
      proof (cases "attempt < retries - 1")
        case less: True
        from "1.IH"(1)[OF True got_def refl Raised_Timeout less]
        have "\<exists>t. snd (snd (attempts env rq retries (attempt + 1)
                 (emit (Sleep (2 ^ nat attempt)) (snd got))))
               = snd (emit (Sleep (2 ^ nat attempt)) (snd got)) @ t"
          by (auto simp: got_def)
        moreover have "attempts env rq retries attempt io
          = attempts env rq retries (attempt + 1) (emit (Sleep (2 ^ nat attempt)) (snd got))"
          using True less Raised_Timeout
          by (subst attempts.simps) (simp add: got_def Let_def)
        ultimately show ?thesis by (intro go)
      next
        case False
        with True Raised_Timeout show ?thesis
          by (intro stop) (subst attempts.simps, simp add: got_def Let_def)
      qed
    next
      case (Raised_RequestException m)
      show ?thesis
      proof (cases "attempt < retries - 1")
        case less: True
        from "1.IH"(2)[OF True got_def refl Raised_RequestException less]
        have "\<exists>t. snd (snd (attempts env rq retries (attempt + 1)
                 (emit (Sleep (2 ^ nat attempt)) (snd got))))
               = snd (emit (Sleep (2 ^ nat attempt)) (snd got)) @ t"
          by (auto simp: got_def)
        moreover have "attempts env rq retries attempt io
          = attempts env rq retries (attempt + 1) (emit (Sleep (2 ^ nat attempt)) (snd got))"
          using True less Raised_RequestException
          by (subst attempts.simps) (simp add: got_def Let_def)
        ultimately show ?thesis by (intro go)
      next
        case False
        with True Raised_RequestException show ?thesis
          by (intro stop) (subst attempts.simps, simp add: got_def Let_def)
      qed
    qed
  qed
qed

lemma gets_member: "Get rq \<in> set t \<Longrightarrow> rq \<in> set (gets t)"
  by (induction t rule: gets.induct) auto

lemma make_api_request_trace:
  "\<exists>t. snd (snd (make_api_request env endpoint ps retries io)) = snd io @ t \<and>
       (0 < retries \<longrightarrow> build_request env endpoint ps \<in> set (gets t))"
proof -
  obtain t where t: "snd (snd (make_api_request env endpoint ps retries io))
      = (snd io @ [ApiCall endpoint ps retries]) @ t"
    "0 < retries \<longrightarrow> Get (build_request env endpoint ps) \<in> set t"
    using attempts_trace[of env "build_request env endpoint ps" retries 0
        "emit (ApiCall endpoint ps retries) io"]
    by (auto simp: make_api_request_def emit_def)
  have "0 < retries \<longrightarrow> build_request env endpoint ps \<in> set (gets ([ApiCall endpoint ps retries] @ t))"
    using t(2) by (auto simp: gets_append gets_member)
  with t(1) show ?thesis by (intro exI[of _ "[ApiCall endpoint ps retries] @ t"]) simp
qed

lemma extract_cursor_string: "\<exists>r. extract_cursor (JStr s) = Inr r"
proof (cases "is_substring ''cursor='' s")
  case False
  then show ?thesis by (simp add: extract_cursor_absent)
next
  case True
  then obtain a b where f: "find_sep ''cursor='' s = Some (a, b)"
    using find_sep_None[of "''cursor=''" s] by (cases "find_sep ''cursor='' s") auto
  have "py_index (py_split ''cursor='' s) 1 = Inr (before_sep ''cursor='' b)"
    using f by (intro py_split_second) simp_all
  with True show ?thesis by (simp add: extract_cursor_def py_split_first)
qed

lemma after_results_ok:
  assumes "map_of kvs ''next'' = None \<or> (\<exists>s. map_of kvs ''next'' = Some (JStr s))
            \<or> (\<exists>n. map_of kvs ''next'' = Some n \<and> \<not> truthy n)"
  shows "after_results (JObj kvs) rs n = StepBreak rs n
          \<or> (\<exists>c. after_results (JObj kvs) rs n = StepContinue rs c)"
proof (cases "map_of kvs ''next''")
  case None
  then show ?thesis by (simp add: after_results_falsy_next)
next
  case (Some nx)
  show ?thesis
  proof (cases "truthy nx")
    case False
    with Some show ?thesis by (simp add: after_results_falsy_next)
  next
    case True
    with Some assms obtain s where s: "nx = JStr s" by auto
    obtain r where r: "extract_cursor (JStr s) = Inr r"
      using extract_cursor_string by blast
    show ?thesis
    proof (cases r)
      case None
      with Some True s r show ?thesis by (simp add: after_results_def)
    next
      case (Some c)
      with \<open>map_of kvs ''next'' = Some nx\<close> True s r show ?thesis
        by (simp add: after_results_def)
    qed
  qed
qed

text \<open>On a body of that shape a pass of the loop body raises nothing, and the list it
  leaves holds objects of that shape only.\<close>

lemma page_step_ok:
  assumes "body_ok st v" and "list_all (item_ok st) rs"
  shows "case page_step v rs n of
           StepRaise e \<Rightarrow> False
         | StepReturn x \<Rightarrow> True
         | StepBreak rs' n' \<Rightarrow> list_all (item_ok st) rs'
         | StepContinue rs' c \<Rightarrow> list_all (item_ok st) rs'"
proof -
  from assms(1) obtain kvs where v: "v = JObj kvs" by (cases v) (simp_all add: body_ok_def)
  have nx: "map_of kvs ''next'' = None \<or> (\<exists>s. map_of kvs ''next'' = Some (JStr s))
            \<or> (\<exists>n. map_of kvs ''next'' = Some n \<and> \<not> truthy n)"
    using assms(1) unfolding v body_ok_def
    by (auto split: option.splits json.splits)
  show ?thesis
  proof (cases "map_of kvs ''error''")
    case (Some x)
    then show ?thesis by (simp add: v page_step_def)
  next
    case None
    show ?thesis
    proof (cases "map_of kvs ''results''")
      case nores: None
      with None assms(2) show ?thesis by (simp add: v page_step_no_results)
    next
      case (Some r)
      show ?thesis
      proof (cases "truthy r")
        case False
        with None Some have "page_step (JObj kvs) rs n = StepBreak rs n"
          by (intro page_step_no_results) auto
        with assms(2) show ?thesis by (simp add: v)
      next
        case True
        with Some assms(1) obtain items where r: "r = JArr items" "list_all (item_ok st) items"
          unfolding v body_ok_def by (cases r) auto
        with True have ne: "items \<noteq> []" by simp
        have st: "page_step (JObj kvs) rs n = after_results (JObj kvs) (rs @ items) (n + 1)"
          using None Some r(1) ne by (simp add: page_step_results)
        have all: "list_all (item_ok st) (rs @ items)"
          using assms(2) r(2) by simp
        from after_results_ok[OF nx, of "rs @ items" "n + 1"] all
        show ?thesis unfolding v st by auto
      qed
    qed
  qed
qed

lemma format_item_ok: "item_ok st item \<Longrightarrow> \<exists>t. format_item env st i item = Inr t"
proof -
  assume a: "item_ok st item"
  then obtain kvs where item: "item = JObj kvs" by (cases item) (simp_all add: item_ok_def)
  have title: "\<exists>t. title_of env st (JObj kvs) = Inr t"
  proof (cases "st = ''opinions''")
    case False
    then show ?thesis by (simp add: title_of_def)
  next
    case True
    with a obtain cl where "(case map_of kvs ''cluster'' of None \<Rightarrow> JObj [] | Some x \<Rightarrow> x) = JObj cl"
      unfolding item item_ok_def by (auto split: option.splits json.splits)
    with True show ?thesis by (simp add: title_of_def)
  qed
  then obtain t where t: "title_of env st (JObj kvs) = Inr t" by blast
  show ?thesis
  proof (cases "map_of kvs ''absolute_url''")
    case None
    with t show ?thesis by (simp add: item format_item_def)
  next
    case (Some u)
    with t show ?thesis by (simp add: item format_item_def Let_def)
  qed
qed

lemma format_items_ok:
  "list_all (item_ok st) items \<Longrightarrow> \<exists>t. format_items env st i items = Inr t"
proof (induction items arbitrary: i)
  case Nil
  show ?case by simp
next
  case (Cons item items)
  then obtain t where "format_item env st i item = Inr t"
    using format_item_ok[of st item env i] by auto
  moreover obtain ts where "format_items env st (Suc i) items = Inr ts"
    using Cons.IH[of "Suc i"] Cons.prems by auto
  ultimately show ?case by simp
qed

lemma format_results_ok:
  "list_all (item_ok st) rs \<Longrightarrow> \<exists>v. format_results env st rs n = Inr v"
  using format_items_ok[of st rs env 1]
  by (auto simp: format_results_def)


lemma body_ok_error_dict: "body_ok st (error_dict m)"
  by (simp add: body_ok_def error_dict_def)

lemma make_api_request_well_answered:
  assumes "well_answered env st (build_request env endpoint ps)"
  shows "\<exists>v. fst (make_api_request env endpoint ps retries io) = Inr v \<and> body_ok st v"
  unfolding make_api_request_def
proof (rule attempts_value)
  show "body_ok st (error_dict m)" for m by (rule body_ok_error_dict)
next
  fix w v
  assume "try_body (fst (http_get env w (build_request env endpoint ps))) = Return v"
  with assms show "body_ok st v"
    unfolding well_answered_def by (auto dest: spec[of _ w])
next
  fix w
  from assms show "handled (fst (http_get env w (build_request env endpoint ps)))"
    unfolding well_answered_def handled_def
    by (auto dest!: spec[of _ w] split: try_result.splits)
qed

lemma pagination_loop_trace:
  "\<exists>t. snd (snd (pagination_loop env st max_pages ps rs c pages_fetched io)) = snd io @ t"
proof (induction env st max_pages ps rs c pages_fetched io rule: pagination_loop.induct)
  case (1 env st max_pages ps rs c pages_fetched io)
  show ?case
  proof (cases "pages_fetched < max_pages")
    case False
    then show ?thesis by (subst pagination_loop.simps) simp
  next
    case True
    define ps1 where "ps1 = set_cursor c ps"
    define got where "got = make_api_request env st (Some ps1) 3 io"
    obtain t0 where t0: "snd (snd got) = snd io @ t0"
      using make_api_request_trace[of env st "Some ps1" 3 io] by (auto simp: got_def)
    show ?thesis
    proof (cases "fst got")
      case (Inl e)
      with True t0 show ?thesis
        by (subst pagination_loop.simps) (simp add: ps1_def got_def Let_def)
    next
      case (Inr result)
      show ?thesis
      proof (cases "page_step result rs pages_fetched")
        case (StepContinue rs' c')
        from "1.IH"[OF True ps1_def got_def Inr StepContinue] t0
        have "\<exists>t. snd (snd (pagination_loop env st max_pages ps1 rs' c'
                 (pages_fetched + 1) (snd got))) = snd io @ t"
          by auto
        with True Inr StepContinue show ?thesis
          by (subst pagination_loop.simps) (simp add: ps1_def got_def Let_def)
      next
        case (StepReturn v)
        with True Inr t0 show ?thesis
          by (subst pagination_loop.simps) (simp add: ps1_def got_def Let_def)
      next
        case (StepBreak rs' n')
        with True Inr t0 show ?thesis
          by (subst pagination_loop.simps) (simp add: ps1_def got_def Let_def)
      next
        case (StepRaise e)
        with True Inr t0 show ?thesis
          by (subst pagination_loop.simps) (simp add: ps1_def got_def Let_def)
      qed
    qed
  qed
qed

text \<open>The request of a pass is on the trace that the loop leaves.\<close>

lemma pagination_loop_first_request:
  assumes "pages_fetched < max_pages"
  shows "build_request env st (Some (set_cursor c ps))
           \<in> set (gets (snd (snd (pagination_loop env st max_pages ps rs c pages_fetched io))))"
proof -
  define ps1 where "ps1 = set_cursor c ps"
  define got where "got = make_api_request env st (Some ps1) 3 io"
  obtain t0 where t0: "snd (snd got) = snd io @ t0" "build_request env st (Some ps1) \<in> set (gets t0)"
    using make_api_request_trace[of env st "Some ps1" 3 io] by (auto simp: got_def)
  have "\<exists>t. snd (snd (pagination_loop env st max_pages ps rs c pages_fetched io))
           = snd (snd got) @ t"
  proof (cases "fst got")
    case (Inl e)
    with assms show ?thesis
      by (subst pagination_loop.simps) (simp add: ps1_def got_def Let_def)
  next
    case (Inr result)
    show ?thesis
    proof (cases "page_step result rs pages_fetched")
      case (StepContinue rs' c')
      with assms Inr show ?thesis
        using pagination_loop_trace[of env st max_pages ps1 rs' c' "pages_fetched + 1" "snd got"]
        by (subst pagination_loop.simps) (simp add: ps1_def got_def Let_def)
    qed (use assms Inr in \<open>subst pagination_loop.simps, simp add: ps1_def got_def Let_def\<close>)+
  qed
  then obtain t where "snd (snd (pagination_loop env st max_pages ps rs c pages_fetched io))
           = snd io @ t0 @ t"
    using t0(1) by auto
  with t0(2) show ?thesis by (simp add: gets_append ps1_def)
qed

lemma pagination_loop_ok:
  "\<forall>rq \<in> set (gets (snd (snd (pagination_loop env st max_pages ps rs c pages_fetched io)))).
      well_answered env st rq \<Longrightarrow>
   list_all (item_ok st) rs \<Longrightarrow>
     (case fst (pagination_loop env st max_pages ps rs c pages_fetched io) of
        LoopRaise e \<Rightarrow> False
      | LoopReturn x \<Rightarrow> True
      | LoopDone rs' n' \<Rightarrow> list_all (item_ok st) rs')"
proof (induction env st max_pages ps rs c pages_fetched io rule: pagination_loop.induct)
  case (1 env st max_pages ps rs c pages_fetched io)
  show ?case
  proof (cases "pages_fetched < max_pages")
    case False
    with "1.prems"(2) show ?thesis by (subst pagination_loop.simps) simp
  next
    case True
    define ps1 where "ps1 = set_cursor c ps"
    define got where "got = make_api_request env st (Some ps1) 3 io"
    have "well_answered env st (build_request env st (Some ps1))"
      using "1.prems"(1) pagination_loop_first_request[OF True, of env st c ps rs io]
      by (simp add: ps1_def)
    then obtain result where res: "fst got = Inr result" and ok: "body_ok st result"
      unfolding got_def using make_api_request_well_answered by blast
    note step = page_step_ok[OF ok "1.prems"(2), of pages_fetched]
    show ?thesis
    proof (cases "page_step result rs pages_fetched")
      case (StepContinue rs' c')
      with step have all: "list_all (item_ok st) rs'" by simp
      have same: "pagination_loop env st max_pages ps rs c pages_fetched io
          = pagination_loop env st max_pages ps1 rs' c' (pages_fetched + 1) (snd got)"
        using True res StepContinue
        by (subst pagination_loop.simps) (simp add: ps1_def got_def Let_def)
      from "1.IH"[OF True ps1_def got_def res StepContinue _ all] "1.prems"(1)
      show ?thesis unfolding same by simp
    next
      case (StepReturn x)
      with True res show ?thesis
        by (subst pagination_loop.simps) (simp add: ps1_def got_def Let_def)
    next
      case (StepBreak rs' n')
      with True res step show ?thesis
        by (subst pagination_loop.simps) (simp add: ps1_def got_def Let_def)
    next
      case (StepRaise e)
      with step show ?thesis by simp
    qed
  qed
qed

lemma search_with_pagination_ok:
  assumes "\<forall>rq \<in> set (gets (snd (snd (search_with_pagination env st q c max_pages io)))).
      well_answered env st rq"
  shows "\<exists>v. fst (search_with_pagination env st q c max_pages io) = Inr v"
proof (cases "st \<in> set valid_search_types")
  case False
  then show ?thesis by (simp add: search_with_pagination_def)
next
  case True
  define run where "run = pagination_loop env st (max_pages_int env max_pages)
                     (initial_params st q c) [] c 0 io"
  have "snd (search_with_pagination env st q c max_pages io) = snd run"
    using True by (simp add: search_with_pagination_def run_def Let_def split: loop_exit.splits)
  with assms have "\<forall>rq \<in> set (gets (snd (snd run))). well_answered env st rq" by simp
  then have inv: "case fst run of LoopRaise e \<Rightarrow> False | LoopReturn x \<Rightarrow> True
             | LoopDone rs' n' \<Rightarrow> list_all (item_ok st) rs'"
    unfolding run_def by (intro pagination_loop_ok) simp_all
  show ?thesis
  proof (cases "fst run")
    case (LoopReturn x)
    with True show ?thesis by (simp add: search_with_pagination_def run_def Let_def)
  next
    case (LoopDone rs' n')
    with inv have "list_all (item_ok st) rs'" by simp
    then obtain v where "format_results env st rs' n' = Inr v"
      using format_results_ok by blast
    with True LoopDone show ?thesis by (simp add: search_with_pagination_def run_def Let_def)
  next
    case (LoopRaise e)
    with inv show ?thesis by simp
  qed
qed


lemma make_api_request_success:
  assumes "0 < retries"
    and "fst (http_get env (fst io) (build_request env endpoint ps)) = Respond r"
    and "200 \<le> status_code r" and "status_code r < 300" and "body r = Decoded v"
  shows "make_api_request env endpoint ps retries io =
           (Inr v, (snd (http_get env (fst io) (build_request env endpoint ps)),
                    snd io @ [ApiCall endpoint ps retries, Get (build_request env endpoint ps)]))"
  unfolding make_api_request_def using assms
  by (subst attempts.simps)
     (simp add: requests_get_def try_body_def raise_for_status_def emit_def Let_def)

text \<open>An exception that is no \<open>requests\<close> exception leaves \<open>make_api_request\<close> at the
  attempt that raises it.\<close>

lemma make_api_request_raises:
  assumes "0 < retries"
    and "try_body (fst (http_get env (fst io) (build_request env endpoint ps))) = Raised_Other e"
  shows "make_api_request env endpoint ps retries io =
           (Inl e, (snd (http_get env (fst io) (build_request env endpoint ps)),
                    snd io @ [ApiCall endpoint ps retries, Get (build_request env endpoint ps)]))"
  unfolding make_api_request_def using assms
  by (subst attempts.simps) (simp add: requests_get_def emit_def Let_def)

lemma undecodable_retryable:
  "200 \<le> status_code r \<Longrightarrow> status_code r < 300 \<Longrightarrow> body r = JSONDecodeFailure m \<Longrightarrow>
     retryable (Respond r)"
  by (simp add: retryable_def try_body_def raise_for_status_def)

text \<open>
  C3, as stated, fails, in four ways. The API answers 200 with the body \<open>null\<close>, which is
  well-formed JSON: \<open>make_api_request\<close> returns it and \<open>"error" in result\<close> raises
  \<open>TypeError\<close>, which leaves \<open>search_with_pagination\<close>. The API answers 200 with a body
  for which \<open>json()\<close> raises \<open>ValueError\<close>: no \<open>except\<close> clause names it, and it leaves
  \<open>make_api_request\<close>. The transport raises \<open>UnicodeEncodeError\<close>: it leaves
  \<open>make_api_request\<close> as well. The API answers with a page of opinions as it serves
  them, where \<open>cluster\<close> is a URL: \<open>cluster.get\<close> raises \<open>AttributeError\<close> while the text
  is written (\<open>get_case_summary\<close> tests \<open>isinstance(cluster, dict)\<close> before the same
  access).
\<close>

theorem raises_across_boundary_counterexample:
  "search_with_pagination (plain_env null_body) ''courts'' [] [] ''3'' ((), [])
     = (Inl TypeError,
        ((), [ApiCall ''courts'' (Some []) 3,
              Get (build_request (plain_env null_body) ''courts'' (Some []))])) \<and>
   make_api_request (plain_env huge_number_body) ''courts'' None 3 ((), [])
     = (Inl ValueError,
        ((), [ApiCall ''courts'' None 3,
              Get (build_request (plain_env huge_number_body) ''courts'' None)])) \<and>
   make_api_request (plain_env unencodable) ''courts'' None 3 ((), [])
     = (Inl UnicodeEncodeError,
        ((), [ApiCall ''courts'' None 3,
              Get (build_request (plain_env unencodable) ''courts'' None)])) \<and>
   fst (search_with_pagination (plain_env opinion_page) ''opinions'' ''visa'' [] ''3'' ((), []))
     = Inl AttributeError"
  by (simp add: eval_page null_body_def huge_number_body_def unencodable_def opinion_page_def
      eval_text)

text \<open>
  C3, amended. When every attempt on the request raises nothing but a \<open>requests\<close>
  exception, \<open>make_api_request\<close> returns a value, an error dictionary or the decoded body
  of a response; when every attempt is answered with a 2xx response whose body is not
  JSON, the attempts are used up and the value is the error dictionary that names them; a
  2xx response with a body that \<open>json()\<close> decodes yields that body; and an exception of
  another class, from the transport or from \<open>json()\<close>, leaves \<open>make_api_request\<close>.
  \<open>search_with_pagination\<close> returns a value, raising nothing, whenever every request that
  the call issues is well answered: the attempts on it raise nothing but \<open>requests\<close>
  exceptions and the bodies returned for it have the shape \<open>body_ok\<close>.
\<close>

theorem failures_returned_as_data:
  "((\<forall>w. handled (fst (http_get env w (build_request env endpoint ps)))) \<longrightarrow>
      (\<exists>v. fst (make_api_request env endpoint ps retries io) = Inr v \<and>
           ((\<exists>m. v = error_dict m) \<or>
            (\<exists>w r. fst (http_get env w (build_request env endpoint ps)) = Respond r \<and>
               body r = Decoded v)))) \<and>
   (0 < retries \<and>
    (\<forall>w. \<exists>r m. fst (http_get env w (build_request env endpoint ps)) = Respond r \<and>
       200 \<le> status_code r \<and> status_code r < 300 \<and> body r = JSONDecodeFailure m) \<longrightarrow>
      (\<exists>v. fst (make_api_request env endpoint ps retries io) = Inr v \<and> exhausted retries v)) \<and>
   (\<forall>r v. 0 < retries \<and> fst (http_get env (fst io) (build_request env endpoint ps)) = Respond r \<and>
      200 \<le> status_code r \<and> status_code r < 300 \<and> body r = Decoded v \<longrightarrow>
      fst (make_api_request env endpoint ps retries io) = Inr v) \<and>
   (\<forall>e. 0 < retries \<and>
      try_body (fst (http_get env (fst io) (build_request env endpoint ps))) = Raised_Other e \<longrightarrow>
      fst (make_api_request env endpoint ps retries io) = Inl e) \<and>
   ((\<forall>rq \<in> set (gets (snd (snd (search_with_pagination env st q c max_pages (w0, []))))).
       well_answered env st rq) \<longrightarrow>
      (\<exists>v. fst (search_with_pagination env st q c max_pages (w0, [])) = Inr v))"
proof (intro conjI allI impI)
  assume h: "\<forall>w. handled (fst (http_get env w (build_request env endpoint ps)))"
  show "\<exists>v. fst (make_api_request env endpoint ps retries io) = Inr v \<and>
           ((\<exists>m. v = error_dict m) \<or>
            (\<exists>w r. fst (http_get env w (build_request env endpoint ps)) = Respond r \<and>
               body r = Decoded v))"
    unfolding make_api_request_def
  proof (rule attempts_value)
    show "(\<exists>m'. error_dict m = error_dict m') \<or>
            (\<exists>w r. fst (http_get env w (build_request env endpoint ps)) = Respond r \<and>
               body r = Decoded (error_dict m))" for m
      by blast
  next
    fix w v
    assume "try_body (fst (http_get env w (build_request env endpoint ps))) = Return v"
    from try_body_Return[OF this]
    show "(\<exists>m. v = error_dict m) \<or>
            (\<exists>w r. fst (http_get env w (build_request env endpoint ps)) = Respond r \<and>
               body r = Decoded v)"
      by blast
  next
    fix w
    from h show "handled (fst (http_get env w (build_request env endpoint ps)))" by simp
  qed
next
  assume a: "0 < retries \<and>
    (\<forall>w. \<exists>r m. fst (http_get env w (build_request env endpoint ps)) = Respond r \<and>
       200 \<le> status_code r \<and> status_code r < 300 \<and> body r = JSONDecodeFailure m)"
  then have "\<forall>w. retryable (fst (http_get env w (build_request env endpoint ps)))"
    by (metis undecodable_retryable)
  from attempts_all_retryable[OF this, of 0 retries "emit (ApiCall endpoint ps retries) io"] a
  show "\<exists>v. fst (make_api_request env endpoint ps retries io) = Inr v \<and> exhausted retries v"
    by (simp add: make_api_request_def)
next
  fix r v
  assume "0 < retries \<and> fst (http_get env (fst io) (build_request env endpoint ps)) = Respond r \<and>
      200 \<le> status_code r \<and> status_code r < 300 \<and> body r = Decoded v"
  then show "fst (make_api_request env endpoint ps retries io) = Inr v"
    by (simp add: make_api_request_success)
next
  fix e
  assume "0 < retries \<and>
      try_body (fst (http_get env (fst io) (build_request env endpoint ps))) = Raised_Other e"
  then show "fst (make_api_request env endpoint ps retries io) = Inl e"
    by (simp add: make_api_request_raises)
next
  assume "\<forall>rq \<in> set (gets (snd (snd (search_with_pagination env st q c max_pages (w0, []))))).
       well_answered env st rq"
  then show "\<exists>v. fst (search_with_pagination env st q c max_pages (w0, [])) = Inr v"
    by (rule search_with_pagination_ok)
qed

lemma three_pages_well_answered: "well_answered (plain_env three_pages) ''courts'' rq"
  by (auto simp: well_answered_def plain_env_def three_pages_def court_page_def try_body_def
      raise_for_status_def body_ok_def item_ok_def split: option.splits)

theorem failures_returned_as_data_witness:
  "(\<forall>rq. well_answered (plain_env three_pages) ''courts'' rq) \<and>
   (\<exists>v. fst (search_with_pagination (plain_env three_pages) ''courts'' [] [] ''3'' ((), [])) = Inr v) \<and>
   fst (make_api_request (plain_env three_pages) ''courts'' (Some []) 3 ((), []))
     = Inr (JObj [(''count'', JNum 3),
             (''next'', JStr ''https://www.courtlistener.com/api/rest/v4/courts/?cursor=p2''),
             (''results'', JArr [JObj [(''full_name'', JStr ''Court A'')]])]) \<and>
   (\<exists>v. fst (make_api_request (plain_env (answer_status 200)) ''courts'' None 3 ((), [])) = Inr v \<and>
        exhausted 3 v) \<and>
   fst (make_api_request (plain_env huge_number_body) ''courts'' None 3 ((), [])) = Inl ValueError"
proof -
  note pages = failures_returned_as_data[where env = "plain_env three_pages" and st = "''courts''"
      and endpoint = "''courts''" and ps = "Some []" and retries = 3 and io = "((), [])"
      and q = "[]" and c = "[]" and max_pages = "''3''" and ?w0.0 = "()"]
  note undecodable = failures_returned_as_data[where env = "plain_env (answer_status 200)"
      and endpoint = "''courts''" and ps = None and retries = 3 and io = "((), [])"]
  note huge = failures_returned_as_data[where env = "plain_env huge_number_body"
      and endpoint = "''courts''" and ps = None and retries = 3 and io = "((), [])"]
  have a: "\<exists>v. fst (search_with_pagination (plain_env three_pages) ''courts'' [] [] ''3'' ((), []))
      = Inr v"
    using pages three_pages_well_answered by blast
  have b: "fst (make_api_request (plain_env three_pages) ''courts'' (Some []) 3 ((), []))
     = Inr (JObj [(''count'', JNum 3),
             (''next'', JStr ''https://www.courtlistener.com/api/rest/v4/courts/?cursor=p2''),
             (''results'', JArr [JObj [(''full_name'', JStr ''Court A'')]])])"
    by (rule pages[THEN conjunct2, THEN conjunct2, THEN conjunct1, rule_format,
          where r = "\<lparr> status_code = 200, http_error = [],
            body = Decoded (JObj [(''count'', JNum 3),
             (''next'', JStr ''https://www.courtlistener.com/api/rest/v4/courts/?cursor=p2''),
             (''results'', JArr [JObj [(''full_name'', JStr ''Court A'')]])]) \<rparr>"])
       (simp add: plain_env_def three_pages_def court_page_def build_request_def)
  have c: "\<exists>v. fst (make_api_request (plain_env (answer_status 200)) ''courts'' None 3 ((), []))
      = Inr v \<and> exhausted 3 v"
    by (rule undecodable[THEN conjunct2, THEN conjunct1, rule_format])
       (simp add: plain_env_def answer_status_def)
  have d: "fst (make_api_request (plain_env huge_number_body) ''courts'' None 3 ((), []))
      = Inl ValueError"
    by (rule huge[THEN conjunct2, THEN conjunct2, THEN conjunct2, THEN conjunct1, rule_format])
       (simp add: plain_env_def huge_number_body_def try_body_def raise_for_status_def)
  show ?thesis using three_pages_well_answered a b c d by simp
qed

end
